theory Spec2Isabelle
  imports Main
begin

section \<open>Device replication state\<close>

text \<open>
  Modelled from the spec: the \<open>connection_state\<close> enumeration of the data model. Its
  declaration (\<open>enum drbd_conns\<close> in \<open>linux/drbd.h\<close>) is not among the sources; the
  numeric order is the one the comparisons of \<open>drbd_worker.c\<close> rely on: the failure and
  connecting states lie below \<open>Connected\<close>, and the sync-like states are the range
  \<open>SyncSource .. PausedSyncT\<close>.
\<close>

datatype drbd_conns =
    StandAlone | Disconnecting | Unconnected | Timeout | BrokenPipe | NetworkFailure
  | ProtocolError | TearDown | WFConnection | WFReportParams | Connected
  | StartingSyncS | StartingSyncT | WFBitMapS | WFBitMapT | WFSyncUUID
  | SyncSource | SyncTarget | VerifyS | VerifyT | PausedSyncS | PausedSyncT

fun conn_val :: "drbd_conns \<Rightarrow> nat" where
  "conn_val StandAlone = 0"
| "conn_val Disconnecting = 1"
| "conn_val Unconnected = 2"
| "conn_val Timeout = 3"
| "conn_val BrokenPipe = 4"
| "conn_val NetworkFailure = 5"
| "conn_val ProtocolError = 6"
| "conn_val TearDown = 7"
| "conn_val WFConnection = 8"
| "conn_val WFReportParams = 9"
| "conn_val Connected = 10"
| "conn_val StartingSyncS = 11"
| "conn_val StartingSyncT = 12"
| "conn_val WFBitMapS = 13"
| "conn_val WFBitMapT = 14"
| "conn_val WFSyncUUID = 15"
| "conn_val SyncSource = 16"
| "conn_val SyncTarget = 17"
| "conn_val VerifyS = 18"
| "conn_val VerifyT = 19"
| "conn_val PausedSyncS = 20"
| "conn_val PausedSyncT = 21"

text \<open>
  Modelled from the spec: the \<open>disk_state\<close> enumeration (\<open>enum drbd_disk_state\<close> of
  \<open>linux/drbd.h\<close>, not among the sources), in its numeric order.
\<close>

datatype drbd_disk_state =
    Diskless | Attaching | Failed | Negotiating | Inconsistent | Outdated | DUnknown
  | Consistent | UpToDate

fun disk_val :: "drbd_disk_state \<Rightarrow> nat" where
  "disk_val Diskless = 0"
| "disk_val Attaching = 1"
| "disk_val Failed = 2"
| "disk_val Negotiating = 3"
| "disk_val Inconsistent = 4"
| "disk_val Outdated = 5"
| "disk_val DUnknown = 6"
| "disk_val Consistent = 7"
| "disk_val UpToDate = 8"

text \<open>The fields of \<open>union drbd_state_t\<close> that the worker reads and writes.\<close>

record drbd_state_t =
  conn :: drbd_conns
  disk :: drbd_disk_state
  pdsk :: drbd_disk_state
  aftr_isp :: bool
  peer_isp :: bool
  user_isp :: bool

text \<open>
  An extent entry (\<open>struct Tl_epoch_entry\<close>) with the parts of its private bio that the
  worker looks at. \<open>e_id\<close> is the address of the entry; \<open>e_digest\<close> is the digest the peer
  sent with a checksum request (the \<open>digest_info\<close> that \<open>block_id\<close> points to there).
\<close>

datatype ee_cb =
    W_e_reissue | W_e_send_csum | W_e_end_data_req | W_e_end_rsdata_req
  | W_e_end_csum_rs_req | W_e_end_ov_req | W_e_end_ov_reply | E_end_block

record Tl_epoch_entry =
  e_id :: nat
  e_sector :: nat
  e_size :: nat
  e_block_id :: nat
  e_is_barrier :: bool
  e_call_al_complete_io :: bool
  e_cb :: ee_cb
  e_digest :: "nat list"
  bio_uptodate :: bool
  bio_has_active_page :: bool
  bio_data :: "nat list"

text \<open>
  \<open>ID_SYNCER\<close> is \<open>(-1ULL)\<close>; \<open>is_syncer_block_id\<close> compares with it (both live in
  \<open>drbd_int.h\<close>, which is not among the sources).
\<close>

definition ID_SYNCER :: nat where
  "ID_SYNCER = 2 ^ 64 - 1"

definition is_syncer_block_id :: "nat \<Rightarrow> bool" where
  "is_syncer_block_id block_id = (block_id = ID_SYNCER)"

text \<open>Items of the work queue \<open>data.work\<close> as this file queues them.\<close>

datatype work_item = Work_ee Tl_epoch_entry | Work_resync_finished

datatype resync_cb = W_make_resync_request | W_make_ov_request | W_resync_inactive

datatype write_ordering_e = WO_none | WO_drain_io | WO_bdev_flush | WO_bio_barrier

fun wo_val :: "write_ordering_e \<Rightarrow> nat" where
  "wo_val WO_none = 0"
| "wo_val WO_drain_io = 1"
| "wo_val WO_bdev_flush = 2"
| "wo_val WO_bio_barrier = 3"

datatype uuid_index = Current | Bitmap | History_start | History_end

datatype drbd_packet_cmd =
    DataRequest | RSDataRequest | CsumRSRequest | OVRequest | OVReply
  | DataReply | RSDataReply | RSIsInSync | NegDReply | NegRSDReply

text \<open>
  Calls into the collaborators (peer link, storage, activity log, helper scripts) are
  recorded in the order they happen. A send is recorded when it is attempted; whether it
  succeeded is an input (\<open>send_ok\<close> below).
\<close>

datatype event =
    Ev_send_ack drbd_packet_cmd nat nat
  | Ev_send_block drbd_packet_cmd nat nat
  | Ev_send_drequest drbd_packet_cmd nat int nat
  | Ev_send_drequest_csum drbd_packet_cmd nat nat "nat list"
  | Ev_send_ov_request nat int
  | Ev_submit_read nat int
  | Ev_mod_timer
  | Ev_chk_io_error
  | Ev_io_error
  | Ev_rs_complete_io nat
  | Ev_al_complete_io nat
  | Ev_wake_ee_wait
  | Ev_wake_asender
  | Ev_free_ee nat
  | Ev_kick_lo
  | Ev_queue_bitmap_io
  | Ev_khelper string

text \<open>
  A negotiated hash transform: its digest size and the digest function, a pure function
  of the bytes of the block.
\<close>

record crypto_hash =
  digestsize :: nat
  digest_of :: "nat list \<Rightarrow> nat list"

text \<open>
  The slice of \<open>struct drbd_conf\<close> this file works on. \<open>sync_after\<close> and \<open>sync_rate\<close> are
  \<open>sync_conf.after\<close> (\<open>-1\<close>: no prerequisite) and \<open>sync_conf.rate\<close>; \<open>md_uuid\<close> is
  \<open>bc->md.uuid\<close>; \<open>bitmap\<close> holds one out-of-sync bit per block; \<open>capacity\<close> is
  \<open>drbd_get_capacity(this_bdev)\<close> in sectors; \<open>work_q\<close> is \<open>data.work.q\<close>;
  \<open>events\<close> is the record of collaborator calls.
\<close>

record drbd_conf =
  state :: drbd_state_t
  sync_after :: int
  sync_rate :: int
  agreed_pro_version :: int
  csums_tfm :: "crypto_hash option"
  capacity :: nat
  max_segment_size :: int
  bitmap :: "bool list"
  bm_resync_fo :: nat
  ov_position :: nat
  resync_work_cb :: resync_cb
  rs_pending_cnt :: int
  unacked_cnt :: int
  local_cnt :: int
  rs_total :: nat
  rs_failed :: nat
  rs_paused :: nat
  rs_same_csum :: nat
  read_cnt :: nat
  writ_cnt :: nat
  write_bm_after_resync :: bool
  write_ordering :: write_ordering_e
  md_uuid :: "uuid_index \<Rightarrow> nat"
  p_uuid :: "(uuid_index \<Rightarrow> nat) option"
  read_ee :: "Tl_epoch_entry list"
  active_ee :: "Tl_epoch_entry list"
  sync_ee :: "Tl_epoch_entry list"
  done_ee :: "Tl_epoch_entry list"
  net_ee :: "Tl_epoch_entry list"
  work_q :: "work_item list"
  events :: "event list"

text \<open>
  What the collaborators answer during one call, as inputs: whether a send for a sector
  succeeds, whether an allocation succeeds (and the address of the entry allocated for a
  sector), whether \<open>drbd_try_rs_begin_io\<close> finds the
  extent of a sector busy, whether \<open>drbd_rs_del_all\<close> finds the resync LRU still in
  use, whether fault injection is active, and the kernel's \<open>HZ\<close>.
\<close>

record env =
  send_ok :: "nat \<Rightarrow> bool"
  alloc_ok :: bool
  ee_addr :: "nat \<Rightarrow> nat"
  rs_begin_busy :: "nat \<Rightarrow> bool"
  rs_del_all_busy :: bool
  fault_active :: bool
  hz :: int

text \<open>
  The minor table: \<open>minor_count\<close> slots, each empty or holding a device. A minor outside
  the table (also a negative one, which the unsigned parameter of \<open>minor_to_mdev\<close> turns
  into a huge index) yields no device.
\<close>

type_synonym minor_table = "drbd_conf option list"

definition minor_to_mdev :: "minor_table \<Rightarrow> int \<Rightarrow> drbd_conf option" where
  "minor_to_mdev devs minor =
     (if 0 \<le> minor \<and> nat minor < length devs then devs ! nat minor else None)"

section \<open>Sync-dependency scheduler\<close>

text \<open>
  The test of \<open>_drbd_may_sync_now\<close> on a prerequisite: it is in a sync-like state
  (\<open>SyncSource .. PausedSyncT\<close>) or one of its three pause flags is set.
\<close>

definition sync_blocked :: "drbd_conf \<Rightarrow> bool" where
  "sync_blocked odev =
     ((conn_val SyncSource \<le> conn_val (conn (state odev)) \<and>
       conn_val (conn (state odev)) \<le> conn_val PausedSyncT) \<or>
      aftr_isp (state odev) \<or> peer_isp (state odev) \<or> user_isp (state odev))"

text \<open>
  \<open>_drbd_may_sync_now\<close>: the \<open>while (1)\<close> loop that walks the chain of prerequisites.
  On a cyclic configuration the loop need not return; the result \<open>None\<close> stands for that.
\<close>

partial_function (option) drbd_may_sync_now :: "minor_table \<Rightarrow> drbd_conf \<Rightarrow> bool option" where
  "drbd_may_sync_now devs odev =
     (if sync_after odev = -1 then Some True
      else (case minor_to_mdev devs (sync_after odev) of
              None \<Rightarrow> Some True
            | Some odev' \<Rightarrow>
                if sync_blocked odev' then Some False
                else drbd_may_sync_now devs odev'))"

text \<open>
  The eligibility rule in the words of the specification: no prerequisite, or the
  prerequisite is neither in a sync-like state nor paused.
\<close>

definition spec_may_sync_now :: "minor_table \<Rightarrow> drbd_conf \<Rightarrow> bool" where
  "spec_may_sync_now devs odev =
     (sync_after odev = -1 \<or>
      (case minor_to_mdev devs (sync_after odev) of
         None \<Rightarrow> True
       | Some p \<Rightarrow> \<not> sync_blocked p))"

text \<open>The first \<open>n\<close> devices of the chain of prerequisites of a device.\<close>

fun prereq_chain :: "nat \<Rightarrow> minor_table \<Rightarrow> drbd_conf \<Rightarrow> drbd_conf list" where
  "prereq_chain 0 devs odev = []"
| "prereq_chain (Suc n) devs odev =
     (if sync_after odev = -1 then []
      else (case minor_to_mdev devs (sync_after odev) of
              None \<Rightarrow> []
            | Some p \<Rightarrow> p # prereq_chain n devs p))"

text \<open>The chain of prerequisites of a device has at most \<open>n\<close> members.\<close>

fun chain_ends :: "nat \<Rightarrow> minor_table \<Rightarrow> drbd_conf \<Rightarrow> bool" where
  "chain_ends 0 devs odev =
     (sync_after odev = -1 \<or> minor_to_mdev devs (sync_after odev) = None)"
| "chain_ends (Suc n) devs odev =
     (sync_after odev = -1 \<or>
      (case minor_to_mdev devs (sync_after odev) of
         None \<Rightarrow> True
       | Some p \<Rightarrow> chain_ends n devs p))"

text \<open>Example devices: a chain \<open>0 \<rightarrow> 1 \<rightarrow> 2\<close> whose last member is a sync source.\<close>

definition idle_state :: drbd_state_t where
  "idle_state = \<lparr>conn = Connected, disk = UpToDate, pdsk = UpToDate,
                 aftr_isp = False, peer_isp = False, user_isp = False\<rparr>"

definition mdev0 :: drbd_conf where
  "mdev0 = \<lparr>state = idle_state, sync_after = -1, sync_rate = 250, agreed_pro_version = 88,
            csums_tfm = None, capacity = 0, max_segment_size = 32768, bitmap = [],
            bm_resync_fo = 0, ov_position = 0, resync_work_cb = W_resync_inactive,
            rs_pending_cnt = 0, unacked_cnt = 0, local_cnt = 0, rs_total = 0, rs_failed = 0,
            rs_paused = 0, rs_same_csum = 0, read_cnt = 0, writ_cnt = 0,
            write_bm_after_resync = False, write_ordering = WO_bio_barrier,
            md_uuid = (\<lambda>i. 0), p_uuid = None, read_ee = [], active_ee = [], sync_ee = [],
            done_ee = [], net_ee = [], work_q = [], events = []\<rparr>"

definition chain_dev0 :: drbd_conf where
  "chain_dev0 = mdev0\<lparr>sync_after := 1\<rparr>"

definition chain_dev1 :: drbd_conf where
  "chain_dev1 = mdev0\<lparr>sync_after := 2\<rparr>"

definition chain_dev2 :: drbd_conf where
  "chain_dev2 = mdev0\<lparr>state := idle_state\<lparr>conn := SyncSource\<rparr>\<rparr>"

definition chain_devs :: minor_table where
  "chain_devs = [Some chain_dev0, Some chain_dev1, Some chain_dev2]"

section \<open>Worker loop\<close>

text \<open>
  A work callback \<open>w->cb(mdev, w, cancel)\<close>: it sees the device and the cancel flag, and
  returns its verdict (\<open>True\<close>: success) with the device as it leaves it.
\<close>

type_synonym work_cb = "drbd_conf \<Rightarrow> bool \<Rightarrow> bool \<times> drbd_conf"

text \<open>
  Modelled from the spec: \<open>drbd_force_state(mdev, NS(conn, c))\<close> (defined in
  \<open>drbd_main.c\<close>, not among the sources), the forced transition of the connection state.
\<close>

definition drbd_force_state :: "drbd_conf \<Rightarrow> drbd_conns \<Rightarrow> drbd_conf" where
  "drbd_force_state mdev c = mdev\<lparr>state := (state mdev)\<lparr>conn := c\<rparr>\<rparr>"

text \<open>
  What \<open>drbd_worker\<close> does with the verdict of a callback: on failure, with the
  connection state (as the callback left it) at or above \<open>Connected\<close>, force
  \<open>NetworkFailure\<close>.
\<close>

definition worker_after_cb :: "bool \<times> drbd_conf \<Rightarrow> drbd_conf" where
  "worker_after_cb r =
     (case r of (ok, mdev) \<Rightarrow>
        if \<not> ok then
          (if conn_val Connected \<le> conn_val (conn (state mdev))
           then drbd_force_state mdev NetworkFailure else mdev)
        else mdev)"

text \<open>One dispatch of the main loop of \<open>drbd_worker\<close>, for the popped item \<open>w\<close>.\<close>

definition worker_dispatch :: "work_cb \<Rightarrow> drbd_conf \<Rightarrow> drbd_conf" where
  "worker_dispatch cb mdev =
     worker_after_cb (cb mdev (conn_val (conn (state mdev)) < conn_val Connected))"

text \<open>
  The main loop over the queued items, first in first out, and the drain on stop, which
  calls every remaining callback with \<open>cancel = 1\<close> and ignores its verdict.
\<close>

fun worker_run :: "work_cb list \<Rightarrow> drbd_conf \<Rightarrow> drbd_conf" where
  "worker_run [] mdev = mdev"
| "worker_run (cb # q) mdev = worker_run q (worker_dispatch cb mdev)"

fun worker_drain :: "work_cb list \<Rightarrow> drbd_conf \<Rightarrow> drbd_conf" where
  "worker_drain [] mdev = mdev"
| "worker_drain (cb # q) mdev = worker_drain q (snd (cb mdev True))"

text \<open>Example callbacks: one that records its cancel flag, one that fails.\<close>

definition cb_record_cancel :: work_cb where
  "cb_record_cancel mdev cancel = (True, mdev\<lparr>state := (state mdev)\<lparr>user_isp := cancel\<rparr>\<rparr>)"

definition cb_fail :: work_cb where
  "cb_fail mdev cancel = (False, mdev)"

section \<open>Collaborator calls\<close>

definition record_event :: "event \<Rightarrow> drbd_conf \<Rightarrow> drbd_conf" where
  "record_event ev mdev = mdev\<lparr>events := events mdev @ [ev]\<rparr>"

text \<open>
  \<open>list_del(&e->w.list)\<close> unlinks the entry from whichever queue holds it; the entry has a
  single list node, so it is on one queue at most.
\<close>

definition other_ee :: "Tl_epoch_entry \<Rightarrow> Tl_epoch_entry \<Rightarrow> bool" where
  "other_ee e x = (e_id x \<noteq> e_id e)"

definition other_work :: "Tl_epoch_entry \<Rightarrow> work_item \<Rightarrow> bool" where
  "other_work e w = (case w of Work_ee x \<Rightarrow> other_ee e x | Work_resync_finished \<Rightarrow> True)"

definition list_del_ee :: "Tl_epoch_entry \<Rightarrow> drbd_conf \<Rightarrow> drbd_conf" where
  "list_del_ee e mdev =
     mdev\<lparr>read_ee := filter (other_ee e) (read_ee mdev),
          active_ee := filter (other_ee e) (active_ee mdev),
          sync_ee := filter (other_ee e) (sync_ee mdev),
          done_ee := filter (other_ee e) (done_ee mdev),
          net_ee := filter (other_ee e) (net_ee mdev),
          work_q := filter (other_work e) (work_q mdev)\<rparr>"

definition drbd_queue_work :: "work_item \<Rightarrow> drbd_conf \<Rightarrow> drbd_conf" where
  "drbd_queue_work w mdev = mdev\<lparr>work_q := work_q mdev @ [w]\<rparr>"

text \<open>
  Modelled from the spec: \<open>drbd_bump_write_ordering\<close> (\<open>drbd_receiver.c\<close>, not among the
  sources) demotes the write-ordering mode: the mode never rises, and it ends at or
  below the requested one.
\<close>

definition drbd_bump_write_ordering :: "write_ordering_e \<Rightarrow> drbd_conf \<Rightarrow> drbd_conf" where
  "drbd_bump_write_ordering wo mdev =
     mdev\<lparr>write_ordering :=
            (if wo_val wo \<le> wo_val (write_ordering mdev) then wo else write_ordering mdev)\<rparr>"

text \<open>
  \<open>inc_local\<close> succeeds while the local disk is at least \<open>Inconsistent\<close>, and then holds a
  reference until \<open>dec_local\<close> (\<open>drbd_int.h\<close>, not among the sources).
\<close>

definition inc_local_ok :: "drbd_conf \<Rightarrow> bool" where
  "inc_local_ok mdev = (disk_val Inconsistent \<le> disk_val (disk (state mdev)))"

text \<open>
  The value of an \<open>int\<close> expression that left the range of 32 bits, as two's complement
  keeps it. The counters \<open>rs_pending_cnt\<close> and \<open>unacked_cnt\<close> are \<open>atomic_t\<close>, an \<open>int\<close> that
  \<open>atomic_inc\<close> and \<open>atomic_dec\<close> let wrap. The reference count \<open>local_cnt\<close> is taken and
  dropped in pairs and none of the functions here reads it.
\<close>

definition wrap_int :: "int \<Rightarrow> int" where
  "wrap_int x = (x + 2 ^ 31) mod 2 ^ 32 - 2 ^ 31"

definition get_local :: "drbd_conf \<Rightarrow> drbd_conf" where
  "get_local mdev = mdev\<lparr>local_cnt := local_cnt mdev + 1\<rparr>"

definition dec_local :: "drbd_conf \<Rightarrow> drbd_conf" where
  "dec_local mdev = mdev\<lparr>local_cnt := local_cnt mdev - 1\<rparr>"

definition inc_rs_pending :: "drbd_conf \<Rightarrow> drbd_conf" where
  "inc_rs_pending mdev = mdev\<lparr>rs_pending_cnt := wrap_int (rs_pending_cnt mdev + 1)\<rparr>"

definition dec_rs_pending :: "drbd_conf \<Rightarrow> drbd_conf" where
  "dec_rs_pending mdev = mdev\<lparr>rs_pending_cnt := wrap_int (rs_pending_cnt mdev - 1)\<rparr>"

definition dec_unacked :: "drbd_conf \<Rightarrow> drbd_conf" where
  "dec_unacked mdev = mdev\<lparr>unacked_cnt := wrap_int (unacked_cnt mdev - 1)\<rparr>"

definition drbd_free_ee :: "Tl_epoch_entry \<Rightarrow> drbd_conf \<Rightarrow> drbd_conf" where
  "drbd_free_ee e mdev = record_event (Ev_free_ee (e_id e)) mdev"

text \<open>
  Modelled from the spec: the state change \<open>_drbd_set_state\<close> / \<open>__drbd_set_state\<close>
  (\<open>drbd_main.c\<close>, not among the sources) installs the new state word and reports
  \<open>SS_NothingToDo\<close> when it equals the old one.
\<close>

datatype set_state_rv = SS_NothingToDo | SS_Success

definition drbd_set_state :: "drbd_conf \<Rightarrow> drbd_state_t \<Rightarrow> set_state_rv \<times> drbd_conf" where
  "drbd_set_state mdev ns =
     (if ns = state mdev then (SS_NothingToDo, mdev) else (SS_Success, mdev\<lparr>state := ns\<rparr>))"

section \<open>Passes of the sync-dependency scheduler\<close>

text \<open>
  The test \<open>conn == StandAlone && disk == Diskless\<close> by which both passes skip an
  unconfigured device.
\<close>

definition dev_skipped :: "drbd_conf \<Rightarrow> bool" where
  "dev_skipped odev = (conn (state odev) = StandAlone \<and> disk (state odev) = Diskless)"

text \<open>
  \<open>__drbd_set_state(_NS(odev, aftr_isp, v), ChgStateHard, NULL) != SS_NothingToDo\<close> for
  the device in slot \<open>i\<close> of the minor table: the device with its new state word, and
  whether anything changed.
\<close>

definition set_aftr_isp :: "minor_table \<Rightarrow> nat \<Rightarrow> drbd_conf \<Rightarrow> bool \<Rightarrow> bool \<times> minor_table" where
  "set_aftr_isp devs i odev v =
     (case drbd_set_state odev ((state odev)\<lparr>aftr_isp := v\<rparr>) of
        (rv, odev') \<Rightarrow> (rv \<noteq> SS_NothingToDo, devs[i := Some odev']))"

text \<open>
  The body of the loop of \<open>_drbd_pause_after\<close> for minor \<open>i\<close>: the change flag it adds to
  \<open>rv\<close>, and the minor table after it.
\<close>

definition pause_after_step :: "minor_table \<Rightarrow> nat \<Rightarrow> (bool \<times> minor_table) option" where
  "pause_after_step devs i =
     (case minor_to_mdev devs (int i) of
        None \<Rightarrow> Some (False, devs)
      | Some odev \<Rightarrow>
          if dev_skipped odev then Some (False, devs)
          else (case drbd_may_sync_now devs odev of
                  None \<Rightarrow> None
                | Some may \<Rightarrow>
                    if \<not> may then Some (set_aftr_isp devs i odev True)
                    else Some (False, devs)))"

fun pause_after_loop :: "nat list \<Rightarrow> minor_table \<Rightarrow> bool \<Rightarrow> (bool \<times> minor_table) option" where
  "pause_after_loop [] devs rv = Some (rv, devs)"
| "pause_after_loop (i # minors) devs rv =
     (case pause_after_step devs i of
        None \<Rightarrow> None
      | Some (c, devs') \<Rightarrow> pause_after_loop minors devs' (rv \<or> c))"

text \<open>\<open>_drbd_pause_after\<close>: \<open>for (i = 0; i < minor_count; i++)\<close>.\<close>

definition drbd_pause_after :: "minor_table \<Rightarrow> (bool \<times> minor_table) option" where
  "drbd_pause_after devs = pause_after_loop [0..<length devs] devs False"

text \<open>The body of the loop of \<open>_drbd_resume_next\<close> for minor \<open>i\<close>.\<close>

definition resume_next_step :: "minor_table \<Rightarrow> nat \<Rightarrow> (bool \<times> minor_table) option" where
  "resume_next_step devs i =
     (case minor_to_mdev devs (int i) of
        None \<Rightarrow> Some (False, devs)
      | Some odev \<Rightarrow>
          if dev_skipped odev then Some (False, devs)
          else if aftr_isp (state odev) then
            (case drbd_may_sync_now devs odev of
               None \<Rightarrow> None
             | Some may \<Rightarrow>
                 if may then Some (set_aftr_isp devs i odev False)
                 else Some (False, devs))
          else Some (False, devs))"

fun resume_next_loop :: "nat list \<Rightarrow> minor_table \<Rightarrow> bool \<Rightarrow> (bool \<times> minor_table) option" where
  "resume_next_loop [] devs rv = Some (rv, devs)"
| "resume_next_loop (i # minors) devs rv =
     (case resume_next_step devs i of
        None \<Rightarrow> None
      | Some (c, devs') \<Rightarrow> resume_next_loop minors devs' (rv \<or> c))"

definition drbd_resume_next :: "minor_table \<Rightarrow> (bool \<times> minor_table) option" where
  "drbd_resume_next devs = resume_next_loop [0..<length devs] devs False"

text \<open>
  The loop \<open>do { changes = _drbd_pause_after(mdev); changes |= _drbd_resume_next(mdev); }
  while (changes)\<close> of \<open>drbd_alter_sa\<close>. \<open>None\<close>: the loop, or a walk of
  \<open>_drbd_may_sync_now\<close> inside it, does not return.
\<close>

partial_function (option) alter_sa_loop :: "minor_table \<Rightarrow> minor_table option" where
  "alter_sa_loop devs =
     (case drbd_pause_after devs of
        None \<Rightarrow> None
      | Some (c1, devs1) \<Rightarrow>
          (case drbd_resume_next devs1 of
             None \<Rightarrow> None
           | Some (c2, devs2) \<Rightarrow>
               if c1 \<or> c2 then alter_sa_loop devs2 else Some devs2))"

text \<open>\<open>drbd_alter_sa(mdev, na)\<close> for the device in slot \<open>i\<close>.\<close>

definition drbd_alter_sa :: "minor_table \<Rightarrow> nat \<Rightarrow> int \<Rightarrow> minor_table option" where
  "drbd_alter_sa devs i na =
     alter_sa_loop (devs[i := map_option (\<lambda>mdev. mdev\<lparr>sync_after := na\<rparr>) (devs ! i)])"

text \<open>
  A dependency configuration is acyclic when the chain of prerequisites of every device
  of the table ends; a chain without a cycle has fewer members than the table has slots.
\<close>

definition acyclic_after :: "minor_table \<Rightarrow> bool" where
  "acyclic_after devs =
     list_all (\<lambda>slot. case slot of None \<Rightarrow> True | Some d \<Rightarrow> chain_ends (length devs) devs d) devs"

text \<open>
  The dependency-pause flag of every configured device agrees with the eligibility rule:
  the flag is set exactly when \<open>_drbd_may_sync_now\<close> returns false.
\<close>

definition flags_agree :: "minor_table \<Rightarrow> bool" where
  "flags_agree devs =
     list_all (\<lambda>slot. case slot of
                 None \<Rightarrow> True
               | Some d \<Rightarrow> dev_skipped d \<or>
                           drbd_may_sync_now devs d = Some (\<not> aftr_isp (state d))) devs"

text \<open>The same for every device, configured or not.\<close>

definition flags_agree_all :: "minor_table \<Rightarrow> bool" where
  "flags_agree_all devs =
     list_all (\<lambda>slot. case slot of
                 None \<Rightarrow> True
               | Some d \<Rightarrow> drbd_may_sync_now devs d = Some (\<not> aftr_isp (state d))) devs"

section \<open>Bitmap tracker\<close>

text \<open>
  Modelled from the spec: the bitmap tracker (\<open>drbd_bitmap.c\<close> and \<open>drbd_actlog.c\<close> are not
  among the sources). One bit stands for a block of \<open>BM_BLOCK_SIZE = 4096\<close> bytes, that
  is \<open>BM_SECT_PER_BIT = 8\<close> sectors; \<open>drbd_set_in_sync\<close> clears the bits of a sector
  range, \<open>drbd_bm_total_weight\<close> counts the set bits.
\<close>

definition BM_BLOCK_SIZE :: nat where
  "BM_BLOCK_SIZE = 4096"

definition BM_SECT_PER_BIT :: nat where
  "BM_SECT_PER_BIT = 8"

definition BM_SECT_TO_BIT :: "nat \<Rightarrow> nat" where
  "BM_SECT_TO_BIT s = s div 8"

definition BM_BIT_TO_SECT :: "nat \<Rightarrow> nat" where
  "BM_BIT_TO_SECT b = b * 8"

definition drbd_bm_bits :: "drbd_conf \<Rightarrow> nat" where
  "drbd_bm_bits mdev = length (bitmap mdev)"

definition drbd_bm_total_weight :: "drbd_conf \<Rightarrow> nat" where
  "drbd_bm_total_weight mdev = length (filter (\<lambda>b. b) (bitmap mdev))"

definition bm_clear_range :: "bool list \<Rightarrow> nat \<Rightarrow> nat \<Rightarrow> bool list" where
  "bm_clear_range bm lo hi =
     map (\<lambda>i. if lo \<le> i \<and> i \<le> hi then False else bm ! i) [0..<length bm]"

definition drbd_set_in_sync :: "drbd_conf \<Rightarrow> nat \<Rightarrow> nat \<Rightarrow> drbd_conf" where
  "drbd_set_in_sync mdev sector sz =
     (if sz div 512 = 0 then mdev
      else mdev\<lparr>bitmap := bm_clear_range (bitmap mdev) (BM_SECT_TO_BIT sector)
                             (BM_SECT_TO_BIT (sector + sz div 512 - 1))\<rparr>)"

section \<open>I/O completion dispatch\<close>

text \<open>
  \<open>drbd_endio_write_sec\<close>: completion of a write on behalf of the peer, or of a resync
  write. \<open>error\<close> is the error code of the block layer (\<open>0\<close>: none); a bio that is not
  up to date counts as \<open>-EIO\<close>.
\<close>

definition endio_error :: "Tl_epoch_entry \<Rightarrow> int \<Rightarrow> int" where
  "endio_error e error = (if error = 0 \<and> \<not> bio_uptodate e then - 5 else error)"

text \<open>The early return: a failed barrier write is handed to \<open>w_e_reissue\<close>.\<close>

definition endio_write_reissue :: "Tl_epoch_entry \<Rightarrow> drbd_conf \<Rightarrow> drbd_conf" where
  "endio_write_reissue e mdev =
     drbd_queue_work (Work_ee (e\<lparr>e_cb := W_e_reissue\<rparr>))
       (list_del_ee e (drbd_bump_write_ordering WO_bdev_flush mdev))"

text \<open>The rest of the function: the entry goes to \<open>done_ee\<close>.\<close>

definition endio_write_done :: "Tl_epoch_entry \<Rightarrow> int \<Rightarrow> drbd_conf \<Rightarrow> drbd_conf" where
  "endio_write_done e error mdev =
     (let m1 = mdev\<lparr>writ_cnt := (writ_cnt mdev + e_size e div 512) mod 2 ^ 32\<rparr>;
          is_syncer_req = is_syncer_block_id (e_block_id e);
          m2 = list_del_ee e m1;
          m3 = m2\<lparr>done_ee := done_ee m2 @ [e]\<rparr>;
          do_wake = (if is_syncer_req then sync_ee m3 = [] else active_ee m3 = []);
          m4 = (if error \<noteq> 0 then record_event Ev_chk_io_error m3 else m3);
          m5 = (if is_syncer_req then record_event (Ev_rs_complete_io (e_sector e)) m4 else m4);
          m6 = (if do_wake then record_event Ev_wake_ee_wait m5 else m5);
          m7 = (if e_call_al_complete_io e
                then record_event (Ev_al_complete_io (e_sector e)) m6 else m6)
      in dec_local (record_event Ev_wake_asender m7))"

definition drbd_endio_write_sec :: "Tl_epoch_entry \<Rightarrow> int \<Rightarrow> drbd_conf \<Rightarrow> drbd_conf" where
  "drbd_endio_write_sec e error mdev =
     (if endio_error e error \<noteq> 0 \<and> e_is_barrier e then endio_write_reissue e mdev
      else endio_write_done e (endio_error e error) mdev)"

section \<open>Checksum path\<close>

text \<open>\<open>!memcmp(a, b, n)\<close>: the first \<open>n\<close> bytes agree.\<close>

definition memcmp_eq :: "nat list \<Rightarrow> nat list \<Rightarrow> nat \<Rightarrow> bool" where
  "memcmp_eq a b n = (take n a = take n b)"

text \<open>
  The digest comparison of \<open>w_e_end_csum_rs_req\<close>: it needs the transform (it may have
  been unconfigured meanwhile) and the buffer for the local digest.
\<close>

definition csum_eq :: "env \<Rightarrow> Tl_epoch_entry \<Rightarrow> drbd_conf \<Rightarrow> bool" where
  "csum_eq env e mdev =
     (case csums_tfm mdev of
        None \<Rightarrow> False
      | Some tfm \<Rightarrow>
          alloc_ok env \<and> memcmp_eq (digest_of tfm (bio_data e)) (e_digest e) (digestsize tfm))"

text \<open>The tail of the \<open>w_e_end_*\<close> callbacks: keep the entry while a page is still being sent.\<close>

definition ee_release :: "Tl_epoch_entry \<Rightarrow> drbd_conf \<Rightarrow> drbd_conf" where
  "ee_release e mdev =
     (if bio_has_active_page e then mdev\<lparr>net_ee := net_ee mdev @ [e]\<rparr> else drbd_free_ee e mdev)"

definition w_e_end_csum_rs_req ::
  "env \<Rightarrow> Tl_epoch_entry \<Rightarrow> bool \<Rightarrow> drbd_conf \<Rightarrow> bool \<times> drbd_conf" where
  "w_e_end_csum_rs_req env e cancel mdev =
     (if cancel then (True, dec_unacked (drbd_free_ee e mdev))
      else
        let m1 = record_event (Ev_rs_complete_io (e_sector e)) mdev;
            ok = send_ok env (e_sector e)
        in if bio_uptodate e then
             (if csum_eq env e m1 then
                let m2 = drbd_set_in_sync m1 (e_sector e) (e_size e);
                    m3 = m2\<lparr>rs_same_csum := (rs_same_csum m2 + 1) mod 2 ^ 64\<rparr>;
                    m4 = record_event (Ev_send_ack RSIsInSync (e_sector e) (e_size e)) m3
                in (ok, ee_release e (dec_unacked m4))
              else
                let m2 = inc_rs_pending m1;
                    e' = e\<lparr>e_block_id := ID_SYNCER\<rparr>;
                    m3 = record_event (Ev_send_block RSDataReply (e_sector e) (e_size e)) m2
                in (ok, ee_release e' (dec_unacked m3)))
           else
             let m2 = record_event (Ev_send_ack NegRSDReply (e_sector e) (e_size e)) m1;
                 m3 = record_event Ev_io_error m2
             in (ok, ee_release e (dec_unacked m3)))"

text \<open>
  \<open>w_e_send_csum\<close>: the resync target has read a candidate block and sends its digest.
  The function reads the digest size through \<open>csums_tfm\<close> without a test; the result
  \<open>None\<close> stands for that dereference of a null pointer.
\<close>

definition w_e_send_csum ::
  "env \<Rightarrow> Tl_epoch_entry \<Rightarrow> bool \<Rightarrow> drbd_conf \<Rightarrow> (bool \<times> drbd_conf) option" where
  "w_e_send_csum env e cancel mdev =
     (if cancel then Some (True, drbd_free_ee e mdev)
      else if bio_uptodate e then
        (case csums_tfm mdev of
           None \<Rightarrow> None
         | Some tfm \<Rightarrow>
             if alloc_ok env then
               let m1 = inc_rs_pending mdev;
                   m2 = record_event
                          (Ev_send_drequest_csum CsumRSRequest (e_sector e) (e_size e)
                             (digest_of tfm (bio_data e))) m1
               in Some (send_ok env (e_sector e), drbd_free_ee e m2)
             else Some (False, drbd_free_ee e mdev))
      else Some (True, drbd_free_ee e (record_event Ev_io_error mdev)))"

section \<open>Resync and verify scan engine\<close>

text \<open>
  Modelled from the spec: the lookups of the bitmap tracker (\<open>drbd_bitmap.c\<close>, not among
  the sources). \<open>drbd_bm_find_next\<close> yields the first set bit at or after a position
  (\<open>None\<close> for \<open>-1UL\<close>); \<open>drbd_bm_test_bit\<close> is tri-state: \<open>1\<close> set, \<open>0\<close> clear, \<open>-1\<close>
  outside the bitmap.
\<close>

definition drbd_bm_find_next :: "drbd_conf \<Rightarrow> nat \<Rightarrow> nat option" where
  "drbd_bm_find_next mdev fo =
     (case filter (\<lambda>i. bitmap mdev ! i) [fo..<length (bitmap mdev)] of
        [] \<Rightarrow> None
      | bnr # _ \<Rightarrow> Some bnr)"

definition drbd_bm_test_bit :: "drbd_conf \<Rightarrow> nat \<Rightarrow> int" where
  "drbd_bm_test_bit mdev bnr =
     (if bnr < length (bitmap mdev) then (if bitmap mdev ! bnr then 1 else 0) else - 1)"

text \<open>
  The constants of \<open>drbd_int.h\<close> (not among the sources): extents of the resync LRU
  hold \<open>2 ^ 12\<close> bitmap bits (\<open>BM_BLOCKS_PER_BM_EXT_MASK\<close>); entries allocated for a
  checksum read carry the block id \<open>DRBD_MAGIC + 0xbeef\<close>.
\<close>

definition BM_BLOCKS_PER_BM_EXT :: nat where
  "BM_BLOCKS_PER_BM_EXT = 4096"

definition DRBD_MAGIC_beef :: nat where
  "DRBD_MAGIC_beef = 2205418087 + 48879"

text \<open>
  Machine arithmetic where a value can leave its range: \<open>sector_t\<close> is an unsigned 64-bit
  integer, \<open>size\<close> a signed 32-bit one. Division of C integers truncates.
\<close>

definition to_int32 :: "nat \<Rightarrow> int" where
  "to_int32 x = (if x mod 2 ^ 32 < 2 ^ 31 then int (x mod 2 ^ 32) else int (x mod 2 ^ 32) - 2 ^ 32)"

definition c_div :: "int \<Rightarrow> int \<Rightarrow> int" where
  "c_div a b = sgn a * sgn b * (\<bar>a\<bar> div \<bar>b\<bar>)"

text \<open>
  \<open>if (sector + (size>>9) > capacity) size = (capacity-sector)<<9;\<close> for a size that is
  not negative.
\<close>

definition clamp_size :: "nat \<Rightarrow> int \<Rightarrow> nat \<Rightarrow> int" where
  "clamp_size sector sz cap =
     (if cap < (sector + nat sz div 512) mod 2 ^ 64
      then to_int32 (((cap + 2 ^ 64 - sector) mod 2 ^ 64 * 512) mod 2 ^ 64)
      else sz)"

text \<open>
  \<open>number = SLEEP_TIME*mdev->sync_conf.rate / ((BM_BLOCK_SIZE/1024)*HZ)\<close> with
  \<open>SLEEP_TIME = HZ/10\<close>: the requests one tick may have in flight. All operands are
  \<open>int\<close>, so the products wrap; \<open>HZ\<close> is the tick rate of the kernel, a positive constant.
\<close>

definition tick_number :: "env \<Rightarrow> drbd_conf \<Rightarrow> int" where
  "tick_number env mdev =
     c_div (wrap_int (c_div (hz env) 10 * sync_rate mdev))
           (wrap_int (c_div (int BM_BLOCK_SIZE) 1024 * hz env))"

text \<open>The label \<open>requeue:\<close> of \<open>w_make_ov_request\<close>: arm the timer again.\<close>

definition ov_requeue :: "drbd_conf \<Rightarrow> bool \<times> drbd_conf" where
  "ov_requeue mdev = (True, record_event Ev_mod_timer mdev)"

datatype ov_exit = Ov_return bool | Ov_requeue | Ov_fallthrough

text \<open>
  The \<open>for\<close> loop of \<open>w_make_ov_request\<close>, from iteration \<open>i\<close> with the local \<open>sector\<close>. A
  send is recorded when it is attempted.
\<close>

function ov_loop :: "env \<Rightarrow> int \<Rightarrow> int \<Rightarrow> nat \<Rightarrow> drbd_conf \<Rightarrow> ov_exit \<times> drbd_conf" where
  "ov_loop env number i sector mdev =
     (if i < number then
        (if rs_begin_busy env sector then (Ov_requeue, mdev\<lparr>ov_position := sector\<rparr>)
         else
           let sz = clamp_size sector (int BM_BLOCK_SIZE) (capacity mdev);
               m1 = inc_rs_pending mdev;
               m2 = record_event (Ev_send_ov_request sector sz) m1
           in if \<not> send_ok env sector then (Ov_return False, dec_rs_pending m2)
              else if capacity mdev \<le> (sector + BM_SECT_PER_BIT) mod 2 ^ 64
              then (Ov_return True, m2\<lparr>resync_work_cb := W_resync_inactive\<rparr>)
              else ov_loop env number (i + 1) ((sector + BM_SECT_PER_BIT) mod 2 ^ 64) m2)
      else (Ov_fallthrough, mdev\<lparr>ov_position := sector\<rparr>))"
  by pat_completeness auto
termination
  by (relation "measure (\<lambda>(env, number, i, sector, mdev). nat (number - i))") auto

declare ov_loop.simps [simp del]

definition w_make_ov_request :: "env \<Rightarrow> bool \<Rightarrow> drbd_conf \<Rightarrow> bool \<times> drbd_conf" where
  "w_make_ov_request env cancel mdev =
     (if cancel then (True, mdev)
      else if conn_val (conn (state mdev)) < conn_val Connected then (False, mdev)
      else if tick_number env mdev < rs_pending_cnt mdev then ov_requeue mdev
      else
        (case ov_loop env (wrap_int (tick_number env mdev - rs_pending_cnt mdev)) 0
                (ov_position mdev) mdev of
           (Ov_return ok, m) \<Rightarrow> (ok, m)
         | (Ov_requeue, m) \<Rightarrow> ov_requeue m
         | (Ov_fallthrough, m) \<Rightarrow> ov_requeue m))"

text \<open>
  \<open>read_for_csum\<close>: \<open>0\<close> the disk is gone, \<open>2\<close> no entry could be had, \<open>1\<close> the read of
  the candidate block is on its way and \<open>w_e_send_csum\<close> will follow. The entry keeps the
  size as an \<open>unsigned int\<close>; \<open>read_cnt += size >> 9\<close> adds the shifted \<open>int\<close> to an
  \<open>unsigned int\<close>.
\<close>

definition read_for_csum :: "env \<Rightarrow> drbd_conf \<Rightarrow> nat \<Rightarrow> int \<Rightarrow> int \<times> drbd_conf" where
  "read_for_csum env mdev sector sz =
     (if \<not> inc_local_ok mdev then (0, mdev)
      else if fault_active env then (2, get_local mdev)
      else if \<not> alloc_ok env then (2, dec_local (get_local mdev))
      else
        let e = \<lparr>e_id = ee_addr env sector, e_sector = sector, e_size = nat (sz mod 2 ^ 32),
                 e_block_id = DRBD_MAGIC_beef, e_is_barrier = False,
                 e_call_al_complete_io = False, e_cb = W_e_send_csum, e_digest = [],
                 bio_uptodate = False, bio_has_active_page = False, bio_data = []\<rparr>;
            m1 = get_local mdev;
            m2 = m1\<lparr>read_ee := e # read_ee m1,
                    read_cnt := nat ((int (read_cnt m1) + sz div 512) mod 2 ^ 32)\<rparr>
        in (1, record_event (Ev_submit_read sector sz) m2))"

datatype next_result = Next_none | Next_busy | Next_bit nat

text \<open>
  From the label \<open>next_sector:\<close> to the test of the bit: find the next dirty bit and
  reserve its extent; a bit found clear after all is skipped and the search goes on.
\<close>

function rs_next_sector :: "env \<Rightarrow> drbd_conf \<Rightarrow> next_result \<times> drbd_conf" where
  "rs_next_sector env mdev =
     (case drbd_bm_find_next mdev (bm_resync_fo mdev) of
        None \<Rightarrow>
          (Next_none, mdev\<lparr>bm_resync_fo := drbd_bm_bits mdev,
                           resync_work_cb := W_resync_inactive\<rparr>)
      | Some bnr \<Rightarrow>
          if rs_begin_busy env (BM_BIT_TO_SECT bnr) then (Next_busy, mdev\<lparr>bm_resync_fo := bnr\<rparr>)
          else if drbd_bm_test_bit (mdev\<lparr>bm_resync_fo := bnr + 1\<rparr>) bnr = 0
          then rs_next_sector env
                 (record_event (Ev_rs_complete_io (BM_BIT_TO_SECT bnr))
                    (mdev\<lparr>bm_resync_fo := bnr + 1\<rparr>))
          else (Next_bit bnr, mdev\<lparr>bm_resync_fo := bnr + 1\<rparr>))"
  by pat_completeness auto
termination
proof (relation "measure (\<lambda>(env, mdev). length (bitmap mdev) - bm_resync_fo mdev)")
  show "wf (measure (\<lambda>(env, mdev). length (bitmap mdev) - bm_resync_fo mdev))" by simp
next
  fix env mdev b
  assume "drbd_bm_find_next mdev (bm_resync_fo mdev) = Some b"
  then obtain xs where
    "filter (\<lambda>i. bitmap mdev ! i) [bm_resync_fo mdev..<length (bitmap mdev)] = b # xs"
    by (auto simp: drbd_bm_find_next_def split: list.splits)
  then have "b \<in> set (filter (\<lambda>i. bitmap mdev ! i) [bm_resync_fo mdev..<length (bitmap mdev)])"
    by simp
  then have "bm_resync_fo mdev \<le> b" "b < length (bitmap mdev)" by simp_all
  then show "((env, record_event (Ev_rs_complete_io (BM_BIT_TO_SECT b))
                      (mdev\<lparr>bm_resync_fo := b + 1\<rparr>)), env, mdev)
             \<in> measure (\<lambda>(env, mdev). length (bitmap mdev) - bm_resync_fo mdev)"
    by (simp add: record_event_def)
qed

declare rs_next_sector.simps [simp del]

record merge_state =
  m_bit :: nat
  m_size :: int
  m_align :: nat
  m_i :: int

text \<open>
  The loop \<open>for (;;)\<close> that merges adjacent dirty bits into one request: up to the
  segment size, aligned, inside one extent.
\<close>

function merge_loop :: "drbd_conf \<Rightarrow> nat \<Rightarrow> merge_state \<Rightarrow> merge_state" where
  "merge_loop mdev sector st =
     (if max_segment_size mdev < m_size st + int BM_BLOCK_SIZE then st
      else if sector mod 2 ^ (m_align st + 3) \<noteq> 0 then st
      else if (m_bit st + 1) mod BM_BLOCKS_PER_BM_EXT = 0 then st
      else if drbd_bm_test_bit mdev (m_bit st + 1) \<noteq> 1 then st
      else merge_loop mdev sector
             \<lparr>m_bit = m_bit st + 1,
              m_size = m_size st + int BM_BLOCK_SIZE,
              m_align = (if int BM_BLOCK_SIZE * 2 ^ m_align st \<le> m_size st + int BM_BLOCK_SIZE
                         then m_align st + 1 else m_align st),
              m_i = m_i st + 1\<rparr>)"
  by pat_completeness auto
termination
proof (relation "measure (\<lambda>(mdev, sector, st). length (bitmap mdev) - m_bit st)")
  show "wf (measure (\<lambda>(mdev, sector, st). length (bitmap mdev) - m_bit st))" by simp
next
  fix mdev :: drbd_conf and sector :: nat and st :: merge_state
  assume "\<not> drbd_bm_test_bit mdev (m_bit st + 1) \<noteq> 1"
  then have "m_bit st + 1 < length (bitmap mdev)"
    by (simp add: drbd_bm_test_bit_def split: if_splits)
  then show "((mdev, sector,
          \<lparr>m_bit = m_bit st + 1, m_size = m_size st + int BM_BLOCK_SIZE,
             m_align = if int BM_BLOCK_SIZE * 2 ^ m_align st \<le> m_size st + int BM_BLOCK_SIZE
                       then m_align st + 1 else m_align st,
             m_i = m_i st + 1\<rparr>), mdev, sector, st)
        \<in> measure (\<lambda>(mdev, sector, st). length (bitmap mdev) - m_bit st)"
    by simp
qed

declare merge_loop.simps [simp del]

datatype rs_exit = Rs_return bool | Rs_requeue | Rs_fallthrough

text \<open>Checksum-based resync is negotiated and configured.\<close>

definition rs_csum_mode :: "drbd_conf \<Rightarrow> bool" where
  "rs_csum_mode mdev = (89 \<le> agreed_pro_version mdev \<and> csums_tfm mdev \<noteq> None)"

text \<open>The merge of the bits that follow bit \<open>bnr\<close>, in iteration \<open>i\<close>.\<close>

definition rs_merge :: "drbd_conf \<Rightarrow> nat \<Rightarrow> int \<Rightarrow> merge_state" where
  "rs_merge mdev bnr i =
     merge_loop mdev (BM_BIT_TO_SECT bnr)
       \<lparr>m_bit = bnr, m_size = int BM_BLOCK_SIZE, m_align = 1, m_i = i\<rparr>"

text \<open>
  The request for one (merged) block: a local read for its checksum, or the request of
  its data from the peer. \<open>None\<close>: the loop goes on; otherwise the way the function
  leaves the loop.
\<close>

definition rs_issue :: "env \<Rightarrow> drbd_conf \<Rightarrow> nat \<Rightarrow> int \<Rightarrow> rs_exit option \<times> drbd_conf" where
  "rs_issue env mdev sector sz =
     (if rs_csum_mode mdev then
        (case read_for_csum env mdev sector sz of
           (rv, m) \<Rightarrow>
             if rv = 0 then (Some (Rs_return False), dec_local m)
             else if rv = 2 then
               (Some Rs_requeue,
                (record_event (Ev_rs_complete_io sector) m)\<lparr>bm_resync_fo := BM_SECT_TO_BIT sector\<rparr>)
             else (None, m))
      else
        let m1 = inc_rs_pending mdev;
            m2 = record_event (Ev_send_drequest RSDataRequest sector sz ID_SYNCER) m1
        in if \<not> send_ok env sector then (Some (Rs_return False), dec_local (dec_rs_pending m2))
           else (None, m2))"

text \<open>The \<open>for\<close> loop of \<open>w_make_resync_request\<close>, from iteration \<open>i\<close>.\<close>

function resync_loop :: "env \<Rightarrow> int \<Rightarrow> int \<Rightarrow> drbd_conf \<Rightarrow> rs_exit \<times> drbd_conf" where
  "resync_loop env number i mdev =
     (if i < number then
        (case rs_next_sector env mdev of
           (Next_none, m) \<Rightarrow> (Rs_return True, dec_local m)
         | (Next_busy, m) \<Rightarrow> (Rs_requeue, m)
         | (Next_bit bnr, m1) \<Rightarrow>
             let st = rs_merge m1 bnr i;
                 m2 = (if int BM_BLOCK_SIZE < m_size st
                       then m1\<lparr>bm_resync_fo := m_bit st + 1\<rparr> else m1);
                 sz = clamp_size (BM_BIT_TO_SECT bnr) (m_size st) (capacity m2)
             in (case rs_issue env m2 (BM_BIT_TO_SECT bnr) sz of
                   (Some ex, m3) \<Rightarrow> (ex, m3)
                 | (None, m3) \<Rightarrow> resync_loop env number (m_i st + 1) m3))
      else (Rs_fallthrough, mdev))"
  by pat_completeness auto
termination
proof (relation "measure (\<lambda>(env, number, i, mdev). nat (number - i))")
  show "wf (measure (\<lambda>(env, number, i, mdev). nat (number - i)))" by simp
next
  fix env :: env and number i :: int and mdev m1 m3 :: drbd_conf and bnr :: nat
    and st :: merge_state
  assume lt: "i < number" and st: "st = rs_merge m1 bnr i"
  have ge: "m_i s \<le> m_i (merge_loop m sector s)" for m sector s
  proof (induction m sector s rule: merge_loop.induct)
    case (1 m sector s)
    then show ?case by (subst merge_loop.simps) (auto simp: Let_def)
  qed
  from ge [of "\<lparr>m_bit = bnr, m_size = int BM_BLOCK_SIZE, m_align = 1, m_i = i\<rparr>" m1
      "BM_BIT_TO_SECT bnr"] st
  have "i \<le> m_i st" by (simp add: rs_merge_def)
  with lt show "((env, number, m_i st + 1, m3), env, number, i, mdev)
                \<in> measure (\<lambda>(env, number, i, mdev). nat (number - i))"
    by simp
qed

declare resync_loop.simps [simp del]

text \<open>The label \<open>requeue:\<close> of \<open>w_make_resync_request\<close>.\<close>

definition rs_requeue :: "drbd_conf \<Rightarrow> bool \<times> drbd_conf" where
  "rs_requeue mdev = (True, dec_local (record_event Ev_mod_timer mdev))"

definition w_make_resync_request :: "env \<Rightarrow> bool \<Rightarrow> drbd_conf \<Rightarrow> bool \<times> drbd_conf" where
  "w_make_resync_request env cancel mdev =
     (if cancel then (True, mdev)
      else if conn_val (conn (state mdev)) < conn_val Connected then (False, mdev)
      else if \<not> inc_local_ok mdev then (True, mdev\<lparr>resync_work_cb := W_resync_inactive\<rparr>)
      else
        let m0 = get_local mdev in
        if tick_number env m0 < rs_pending_cnt m0 then rs_requeue m0
        else
          (case resync_loop env (wrap_int (tick_number env m0 - rs_pending_cnt m0)) 0 m0 of
             (Rs_return ok, m) \<Rightarrow> (ok, m)
           | (Rs_requeue, m) \<Rightarrow> rs_requeue m
           | (Rs_fallthrough, m) \<Rightarrow>
               if drbd_bm_bits m \<le> bm_resync_fo m
               then (True, dec_local (m\<lparr>resync_work_cb := W_resync_inactive\<rparr>))
               else rs_requeue m))"

section \<open>Resync completion\<close>

text \<open>
  Modelled from the spec: the setters of the replica generation identifiers
  (\<open>_drbd_uuid_set\<close>, \<open>drbd_uuid_set\<close>, \<open>drbd_uuid_set_bm\<close> of \<open>drbd_main.c\<close>, not among the
  sources). \<open>_drbd_uuid_set\<close> is the plain store of a slot; \<open>drbd_uuid_set\<close> and
  \<open>drbd_uuid_set_bm\<close> first move a value that the slot holds into the history.
\<close>

definition drbd_uuid_move_history :: "(uuid_index \<Rightarrow> nat) \<Rightarrow> (uuid_index \<Rightarrow> nat)" where
  "drbd_uuid_move_history u = u(History_end := u History_start)"

definition drbd_uuid_set_raw :: "(uuid_index \<Rightarrow> nat) \<Rightarrow> uuid_index \<Rightarrow> nat \<Rightarrow> (uuid_index \<Rightarrow> nat)" where
  "drbd_uuid_set_raw u idx val = u(idx := val)"

definition drbd_uuid_set :: "(uuid_index \<Rightarrow> nat) \<Rightarrow> uuid_index \<Rightarrow> nat \<Rightarrow> (uuid_index \<Rightarrow> nat)" where
  "drbd_uuid_set u idx val =
     drbd_uuid_set_raw
       (if u idx \<noteq> 0 then (drbd_uuid_move_history u)(History_start := u idx) else u) idx val"

definition drbd_uuid_set_bm :: "(uuid_index \<Rightarrow> nat) \<Rightarrow> nat \<Rightarrow> (uuid_index \<Rightarrow> nat)" where
  "drbd_uuid_set_bm u val =
     (if u Bitmap = 0 \<and> val = 0 then u
      else if val = 0 then ((drbd_uuid_move_history u)(History_start := u Bitmap))(Bitmap := 0)
      else u(Bitmap := val))"

text \<open>
  The branch of \<open>drbd_resync_finished\<close> for a run without failed blocks: a sync target
  adopts the peer's identifiers, the bitmap identifier is cleared, and what is known of
  the peer is set to the local identifiers.
\<close>

definition resync_finished_uuids :: "drbd_conns \<Rightarrow> drbd_conf \<Rightarrow> drbd_conf" where
  "resync_finished_uuids os_conn mdev =
     (let u1 = (if os_conn = SyncTarget \<or> os_conn = PausedSyncT then
                  (case p_uuid mdev of
                     Some p \<Rightarrow>
                       let u = fold (\<lambda>i u. drbd_uuid_set_raw u i (p i))
                                 [Bitmap, History_start, History_end] (md_uuid mdev);
                           u' = drbd_uuid_set u Bitmap (u Current)
                       in drbd_uuid_set_raw u' Current (p Current)
                   | None \<Rightarrow> md_uuid mdev)
                else md_uuid mdev);
          u2 = drbd_uuid_set_bm u1 0
      in mdev\<lparr>md_uuid := u2,
              p_uuid := (case p_uuid mdev of
                           None \<Rightarrow> None
                         | Some p \<Rightarrow>
                             Some (fold (\<lambda>i p. p(i := u2 i))
                                     [Current, Bitmap, History_start, History_end] p))\<rparr>)"

text \<open>
  From the label \<open>out:\<close> on: reset the run counters, write the bitmap if that was
  postponed, call the helper. (\<open>drbd_bm_recount_bits\<close> recomputes the weight of the
  bitmap, which this model always counts.)
\<close>

definition resync_finished_out :: "string option \<Rightarrow> drbd_conf \<Rightarrow> drbd_conf" where
  "resync_finished_out khelper_cmd mdev =
     (let m1 = mdev\<lparr>rs_total := 0, rs_failed := 0, rs_paused := 0\<rparr>;
          m2 = (if write_bm_after_resync m1
                then record_event Ev_queue_bitmap_io (m1\<lparr>write_bm_after_resync := False\<rparr>)
                else m1)
      in (case khelper_cmd of None \<Rightarrow> m2 | Some c \<Rightarrow> record_event (Ev_khelper c) m2))"

text \<open>
  The state word that \<open>drbd_resync_finished\<close> builds once it is past its guard: back to
  \<open>Connected\<close>, and the disk states by the count of failed blocks.
\<close>

definition resync_finished_ns :: "drbd_conf \<Rightarrow> drbd_state_t" where
  "resync_finished_ns mdev =
     (let os = state mdev;
          ns = os\<lparr>conn := Connected\<rparr>
      in if rs_failed mdev \<noteq> 0 then
           (if conn os = SyncTarget \<or> conn os = PausedSyncT
            then ns\<lparr>disk := Inconsistent, pdsk := UpToDate\<rparr>
            else ns\<lparr>disk := UpToDate, pdsk := Inconsistent\<rparr>)
         else ns\<lparr>disk := UpToDate, pdsk := UpToDate\<rparr>)"

text \<open>The helper event that the function chooses.\<close>

definition resync_finished_khelper :: "drbd_conf \<Rightarrow> string option" where
  "resync_finished_khelper mdev =
     (let os = state mdev in
      if conn os = VerifyS \<or> conn os = VerifyT then
        (if drbd_bm_total_weight mdev \<noteq> 0 then Some ''out-of-sync'' else None)
      else if conn os = SyncTarget \<or> conn os = PausedSyncT then Some ''after-resync-target''
      else None)"

text \<open>
  \<open>drbd_resync_finished\<close>. While the resync LRU is in use and the retry item can be
  allocated, the function only queues \<open>w_resync_finished\<close> again. The statistics
  \<open>dt\<close>, \<open>db\<close>, \<open>dbdt\<close> are only printed and are left out; \<open>inc_local\<close> and \<open>dec_local\<close>
  pair up and leave the reference count as it was.
\<close>

definition drbd_resync_finished :: "env \<Rightarrow> drbd_conf \<Rightarrow> drbd_conf" where
  "drbd_resync_finished env mdev =
     (if rs_del_all_busy env \<and> alloc_ok env then
        drbd_queue_work Work_resync_finished (record_event Ev_kick_lo mdev)
      else
        let m0 = (if rs_del_all_busy env then record_event Ev_kick_lo mdev else mdev);
            m1 = m0\<lparr>rs_paused := rs_paused m0 div nat (hz env)\<rparr>
        in if \<not> inc_local_ok m1 then resync_finished_out None m1
           else if conn_val (conn (state m1)) \<le> conn_val Connected
           then resync_finished_out None m1
           else
             let m2 = (if rs_failed m1 \<noteq> 0 then m1
                       else resync_finished_uuids (conn (state m1)) m1)
             in resync_finished_out (resync_finished_khelper m1)
                  (snd (drbd_set_state m2 (resync_finished_ns m1))))"

text \<open>
  The device as \<open>drbd_resync_finished\<close> has it when it reaches \<open>inc_local\<close>: after the
  test of the resync LRU and \<open>rs_paused /= HZ\<close>.
\<close>

definition finished_m1 :: "env \<Rightarrow> drbd_conf \<Rightarrow> drbd_conf" where
  "finished_m1 env mdev =
     (if rs_del_all_busy env then record_event Ev_kick_lo mdev else mdev)
       \<lparr>rs_paused := rs_paused mdev div nat (hz env)\<rparr>"

section \<open>Ranks and invariants of the recomputation\<close>

text \<open>A device with its dependency-pause flag cleared: what the two passes never change.\<close>

definition unflag :: "drbd_conf \<Rightarrow> drbd_conf" where
  "unflag d = d\<lparr>state := (state d)\<lparr>aftr_isp := False\<rparr>\<rparr>"

text \<open>The minor table up to the dependency-pause flags.\<close>

definition shape :: "minor_table \<Rightarrow> minor_table" where
  "shape devs = map (map_option unflag) devs"

text \<open>A rank on the minors that falls along every dependency: the table has no cycle.\<close>

definition ranked :: "(int \<Rightarrow> nat) \<Rightarrow> minor_table \<Rightarrow> bool" where
  "ranked r devs =
     (\<forall>i d. minor_to_mdev devs i = Some d \<longrightarrow> sync_after d \<noteq> -1 \<longrightarrow>
            minor_to_mdev devs (sync_after d) \<noteq> None \<longrightarrow> r (sync_after d) < r i)"

text \<open>The rank of a device as the walk of \<open>_drbd_may_sync_now\<close> sees it: one more than the rank of its prerequisite.\<close>

definition rk :: "(int \<Rightarrow> nat) \<Rightarrow> minor_table \<Rightarrow> drbd_conf \<Rightarrow> nat" where
  "rk r devs d =
     (if sync_after d = -1 then 0
      else (case minor_to_mdev devs (sync_after d) of None \<Rightarrow> 0 | Some p \<Rightarrow> Suc (r (sync_after d))))"

text \<open>The device as the pause pass leaves it, given what \<open>_drbd_may_sync_now\<close> returned for it.\<close>

definition pause_upd :: "bool option \<Rightarrow> drbd_conf \<Rightarrow> drbd_conf" where
  "pause_upd e d =
     (if \<not> dev_skipped d \<and> e = Some False then d\<lparr>state := (state d)\<lparr>aftr_isp := True\<rparr>\<rparr> else d)"

text \<open>The device as the resume pass leaves it, given what \<open>_drbd_may_sync_now\<close> returned for it.\<close>

definition resume_upd :: "bool option \<Rightarrow> drbd_conf \<Rightarrow> drbd_conf" where
  "resume_upd e d =
     (if \<not> dev_skipped d \<and> aftr_isp (state d) \<and> e = Some True
      then d\<lparr>state := (state d)\<lparr>aftr_isp := False\<rparr>\<rparr> else d)"

text \<open>What \<open>_drbd_may_sync_now\<close> returns for the device of a minor.\<close>

definition slot_may :: "minor_table \<Rightarrow> int \<Rightarrow> bool option" where
  "slot_may devs j =
     (case minor_to_mdev devs j of None \<Rightarrow> None | Some d \<Rightarrow> drbd_may_sync_now devs d)"

text \<open>Two tables differ in dependency-pause flags only, and not at all on the minors of rank below \<open>k\<close>.\<close>

definition agree_below :: "(int \<Rightarrow> nat) \<Rightarrow> nat \<Rightarrow> minor_table \<Rightarrow> minor_table \<Rightarrow> bool" where
  "agree_below r k devs0 devs =
     (shape devs = shape devs0 \<and> (\<forall>j. r j < k \<longrightarrow> minor_to_mdev devs j = minor_to_mdev devs0 j))"

text \<open>The flags of the configured devices of rank below \<open>k\<close> agree with the eligibility rule.\<close>

definition settled :: "(int \<Rightarrow> nat) \<Rightarrow> nat \<Rightarrow> minor_table \<Rightarrow> bool" where
  "settled r k devs =
     (\<forall>i d. r i < k \<longrightarrow> minor_to_mdev devs i = Some d \<longrightarrow> \<not> dev_skipped d \<longrightarrow>
            drbd_may_sync_now devs d = Some (\<not> aftr_isp (state d)))"

text \<open>The pause pass would leave the device of a minor as it is.\<close>

definition pause_fix :: "minor_table \<Rightarrow> minor_table \<Rightarrow> int \<Rightarrow> bool" where
  "pause_fix devs0 devs j =
     (case minor_to_mdev devs j of None \<Rightarrow> True | Some d \<Rightarrow> pause_upd (slot_may devs0 j) d = d)"

text \<open>The resume pass would leave the device of a minor as it is.\<close>

definition resume_fix :: "minor_table \<Rightarrow> minor_table \<Rightarrow> int \<Rightarrow> bool" where
  "resume_fix devs0 devs j =
     (case minor_to_mdev devs j of None \<Rightarrow> True | Some d \<Rightarrow> resume_upd (slot_may devs0 j) d = d)"

text \<open>A rank for an acyclic table: the length of the chain of prerequisites.\<close>

definition chain_len :: "minor_table \<Rightarrow> int \<Rightarrow> nat" where
  "chain_len devs j =
     (case minor_to_mdev devs j of None \<Rightarrow> 0 | Some d \<Rightarrow> (LEAST n. chain_ends n devs d))"

text \<open>Example devices: a sync source, a device that depends on it, and an unconfigured device that depends on it.\<close>

definition dev_a :: drbd_conf where
  "dev_a = mdev0\<lparr>state := idle_state\<lparr>conn := SyncSource\<rparr>\<rparr>"

definition dev_b :: drbd_conf where
  "dev_b = mdev0\<lparr>sync_after := 0\<rparr>"

definition dev_b_paused :: drbd_conf where
  "dev_b_paused = dev_b\<lparr>state := (state dev_b)\<lparr>aftr_isp := True\<rparr>\<rparr>"

definition dev_unconf :: drbd_conf where
  "dev_unconf = mdev0\<lparr>state := idle_state\<lparr>conn := StandAlone, disk := Diskless\<rparr>, sync_after := 0\<rparr>"

section \<open>Requests of a scan tick\<close>

text \<open>
  The requests a tick issues are read off the events it appends: a block request
  (\<open>drbd_send_drequest\<close>), a verify request (\<open>drbd_send_ov_request\<close>) and, in checksum mode,
  the local read of the candidate block (\<open>read_for_csum\<close>). \<open>request_within cap\<close> holds of a
  request of \<open>z\<close> bytes at sector \<open>s\<close> when \<open>s + z / 512\<close> does not pass \<open>cap\<close> sectors.
\<close>

fun is_request :: "event \<Rightarrow> bool" where
  "is_request (Ev_send_drequest c s z b) = True"
| "is_request (Ev_send_ov_request s z) = True"
| "is_request (Ev_submit_read s z) = True"
| "is_request ev = False"

definition requests :: "event list \<Rightarrow> nat" where
  "requests evs = length (filter is_request evs)"

fun request_within :: "nat \<Rightarrow> event \<Rightarrow> bool" where
  "request_within cap (Ev_send_drequest c s z b) = (0 \<le> z \<and> s + nat z div 512 \<le> cap)"
| "request_within cap (Ev_send_ov_request s z) = (0 \<le> z \<and> s + nat z div 512 \<le> cap)"
| "request_within cap (Ev_submit_read s z) = (0 \<le> z \<and> s + nat z div 512 \<le> cap)"
| "request_within cap ev = True"

text \<open>
  The device after one request of a tick: \<open>ov_sent\<close> after the verify request at \<open>sector\<close>,
  \<open>rs_m2\<close> and \<open>rs_size\<close> the scan offset and the size after the merge of adjacent blocks,
  \<open>rs_sent\<close> after the direct request of the single block \<open>bnr\<close>.
\<close>

definition ov_sent :: "nat \<Rightarrow> drbd_conf \<Rightarrow> drbd_conf" where
  "ov_sent sector mdev =
     record_event (Ev_send_ov_request sector (clamp_size sector (int BM_BLOCK_SIZE) (capacity mdev)))
       (inc_rs_pending mdev)"

definition rs_m2 :: "drbd_conf \<Rightarrow> nat \<Rightarrow> int \<Rightarrow> drbd_conf" where
  "rs_m2 m1 bnr i =
     (if int BM_BLOCK_SIZE < m_size (rs_merge m1 bnr i)
      then m1\<lparr>bm_resync_fo := m_bit (rs_merge m1 bnr i) + 1\<rparr> else m1)"

definition rs_size :: "drbd_conf \<Rightarrow> nat \<Rightarrow> int \<Rightarrow> int" where
  "rs_size m1 bnr i = clamp_size (BM_BIT_TO_SECT bnr) (m_size (rs_merge m1 bnr i)) (capacity m1)"

definition rs_sent :: "drbd_conf \<Rightarrow> nat \<Rightarrow> drbd_conf" where
  "rs_sent m bnr =
     record_event (Ev_send_drequest RSDataRequest (BM_BIT_TO_SECT bnr)
                     (clamp_size (BM_BIT_TO_SECT bnr) 4096 (capacity m)) ID_SYNCER)
       (inc_rs_pending (m\<lparr>bm_resync_fo := bnr + 1\<rparr>))"

text \<open>
  \<open>same_disk\<close>: two states of one device over the same backing disk and bitmap size.
  \<open>scan_wf\<close>: the bitmap has one bit per 4 KiB block of the capacity, the last block possibly
  partial (\<open>drbd_bm_resize\<close> sizes it so); the segment size is an \<open>int\<close>; the capacity stays
  clear of the end of the 64-bit sector range.
\<close>

definition same_disk :: "drbd_conf \<Rightarrow> drbd_conf \<Rightarrow> bool" where
  "same_disk m m' =
     (capacity m' = capacity m \<and> bitmap m' = bitmap m \<and> max_segment_size m' = max_segment_size m)"

definition scan_wf :: "drbd_conf \<Rightarrow> bool" where
  "scan_wf mdev =
     (8 * length (bitmap mdev) < capacity mdev + 8 \<and> max_segment_size mdev < 2 ^ 31 \<and>
      capacity mdev + 2 ^ 22 < 2 ^ 64)"

section \<open>Example inputs\<close>

definition ex_e :: Tl_epoch_entry where
  "ex_e = \<lparr>e_id = 7, e_sector = 16, e_size = 4096, e_block_id = 99, e_is_barrier = False,
           e_call_al_complete_io = False, e_cb = E_end_block, e_digest = [1, 2, 3],
           bio_uptodate = True, bio_has_active_page = False, bio_data = [5, 6]\<rparr>"

definition ex_barrier :: Tl_epoch_entry where
  "ex_barrier = ex_e\<lparr>e_id := 8, e_is_barrier := True\<rparr>"

definition ex_env :: env where
  "ex_env = \<lparr>send_ok = (\<lambda>s. True), alloc_ok = True, ee_addr = (\<lambda>s. s),
             rs_begin_busy = (\<lambda>s. False),
             rs_del_all_busy = False, fault_active = False, hz = 100\<rparr>"

definition ex_hash :: crypto_hash where
  "ex_hash = \<lparr>digestsize = 3, digest_of = (\<lambda>d. [1, 2, 3])\<rparr>"

definition ex_writes :: drbd_conf where
  "ex_writes = mdev0\<lparr>active_ee := [ex_e, ex_barrier]\<rparr>"

definition ex_csum :: drbd_conf where
  "ex_csum = mdev0\<lparr>csums_tfm := Some ex_hash, bitmap := [True, True, True, True],
                   capacity := 32\<rparr>"

definition ex_down :: env where
  "ex_down = ex_env\<lparr>send_ok := (\<lambda>s. False)\<rparr>"

text \<open>
  A resync target in checksum mode, and the entry \<open>read_for_csum\<close> has read for it at
  sector 16.
\<close>

definition ex_csum_target :: drbd_conf where
  "ex_csum_target = ex_csum\<lparr>state := idle_state\<lparr>conn := SyncTarget, disk := Inconsistent\<rparr>,
                            agreed_pro_version := 89\<rparr>"

definition ex_csum_e :: Tl_epoch_entry where
  "ex_csum_e = ex_e\<lparr>e_block_id := DRBD_MAGIC_beef\<rparr>"

definition ex_sync :: drbd_conf where
  "ex_sync = mdev0\<lparr>state := idle_state\<lparr>conn := SyncTarget, disk := Inconsistent\<rparr>,
                   rs_total := 10, p_uuid := Some (\<lambda>i. 5)\<rparr>"

definition ex_source :: drbd_conf where
  "ex_source = mdev0\<lparr>state := idle_state\<lparr>conn := SyncSource, pdsk := Inconsistent\<rparr>,
                     rs_total := 10, rs_failed := 3\<rparr>"

text \<open>
  A device of 20 sectors (two whole blocks and a half one), all three bits set: a resync
  target at 120 KiB/s (three requests a tick), the same at 40 KiB/s with two requests
  pending, the same with one pending and the scan offset at the end of the bitmap, and
  the same device as the source of an online verify.
\<close>

definition ex_tick :: drbd_conf where
  "ex_tick = mdev0\<lparr>state := idle_state\<lparr>conn := SyncTarget, disk := Inconsistent\<rparr>,
                   sync_rate := 120, capacity := 20, max_segment_size := 4096,
                   bitmap := [True, True, True]\<rparr>"

definition ex_throttled :: drbd_conf where
  "ex_throttled = ex_tick\<lparr>sync_rate := 40, rs_pending_cnt := 2\<rparr>"

definition ex_scan_end :: drbd_conf where
  "ex_scan_end = ex_tick\<lparr>sync_rate := 40, rs_pending_cnt := 1, bm_resync_fo := 3\<rparr>"

definition ex_verify :: drbd_conf where
  "ex_verify = ex_tick\<lparr>state := idle_state\<lparr>conn := VerifyS\<rparr>\<rparr>"

text \<open>
  A verify source that has lost its local disk, with two requests pending at 40 KiB/s.
  A rate so high that \<open>SLEEP_TIME * rate\<close> leaves the range of \<open>int\<close>: the product
  \<open>2500000000\<close> wraps to \<open>-1794967296\<close> and \<open>number\<close> is \<open>-4487418\<close>.
\<close>

definition ex_verify_diskless :: drbd_conf where
  "ex_verify_diskless = ex_throttled\<lparr>state := idle_state\<lparr>conn := VerifyS, disk := Diskless\<rparr>\<rparr>"

definition ex_wrapped :: drbd_conf where
  "ex_wrapped = ex_tick\<lparr>sync_rate := 250000000, rs_pending_cnt := 6250000, bitmap := []\<rparr>"

text \<open>
  A sync target whose identifiers and those known of the peer can be told apart slot by
  slot.
\<close>

definition ex_target :: drbd_conf where
  "ex_target =
     ex_sync\<lparr>md_uuid := (\<lambda>i. case i of Current \<Rightarrow> 10 | Bitmap \<Rightarrow> 11
                                      | History_start \<Rightarrow> 12 | History_end \<Rightarrow> 13),
             p_uuid := Some (\<lambda>i. case i of Current \<Rightarrow> 20 | Bitmap \<Rightarrow> 21
                                           | History_start \<Rightarrow> 22 | History_end \<Rightarrow> 23)\<rparr>"

section \<open>Properties of the sync-dependency scheduler\<close>

text \<open>
  C2 (as amended). \<open>_drbd_may_sync_now\<close> follows the whole chain of prerequisites, not
  only the direct one: when the chain of the device ends after at most \<open>n\<close> members, the
  function returns, and it returns true exactly when no member of the chain is in a
  sync-like state (\<open>SyncSource .. PausedSyncT\<close>) or has a pause flag set.
\<close>

theorem may_sync_now_iff_chain_clear:
  assumes "chain_ends n devs odev"
  shows "drbd_may_sync_now devs odev =
           Some (list_all (\<lambda>p. \<not> sync_blocked p) (prereq_chain n devs odev))"
  using assms
proof (induction n arbitrary: odev)
  case 0
  then show ?case
    by (subst drbd_may_sync_now.simps) auto
next
  case (Suc n)
  show ?case
  proof (cases "sync_after odev = -1")
    case True
    then show ?thesis
      by (subst drbd_may_sync_now.simps) simp
  next
    case False
    show ?thesis
    proof (cases "minor_to_mdev devs (sync_after odev)")
      case None
      with False show ?thesis
        by (subst drbd_may_sync_now.simps) simp
    next
      case (Some p)
      with False Suc.prems have "chain_ends n devs p" by simp
      then have "drbd_may_sync_now devs p =
                 Some (list_all (\<lambda>p. \<not> sync_blocked p) (prereq_chain n devs p))"
        by (rule Suc.IH)
      with False Some show ?thesis
        by (subst drbd_may_sync_now.simps) simp
    qed
  qed
qed

theorem may_sync_now_iff_chain_clear_witness:
  "chain_ends 2 chain_devs chain_dev0 \<and>
   drbd_may_sync_now chain_devs chain_dev0 = Some False \<and>
   prereq_chain 2 chain_devs chain_dev0 = [chain_dev1, chain_dev2]"
proof -
  have e: "chain_ends 2 chain_devs chain_dev0"
    by (simp add: numeral_2_eq_2 chain_devs_def chain_dev0_def chain_dev1_def chain_dev2_def
        mdev0_def minor_to_mdev_def)
  have c: "prereq_chain 2 chain_devs chain_dev0 = [chain_dev1, chain_dev2]"
    by (simp add: numeral_2_eq_2 chain_devs_def chain_dev0_def chain_dev1_def chain_dev2_def
        mdev0_def minor_to_mdev_def)
  have b: "sync_blocked chain_dev2"
    by (simp add: sync_blocked_def chain_dev2_def mdev0_def idle_state_def)
  from may_sync_now_iff_chain_clear [OF e] c b
  have "drbd_may_sync_now chain_devs chain_dev0 = Some False" by simp
  with e c show ?thesis by simp
qed

text \<open>
  C2 (as stated) fails: in the chain \<open>0 \<rightarrow> 1 \<rightarrow> 2\<close> the direct prerequisite of device 0 is
  idle and unpaused, so the rule of the specification makes device 0 eligible, while the
  code finds the sync source two steps down the chain and returns false.
\<close>

theorem may_sync_now_direct_counterexample:
  "spec_may_sync_now chain_devs chain_dev0 \<and>
   drbd_may_sync_now chain_devs chain_dev0 = Some False"
proof -
  have m: "minor_to_mdev chain_devs 1 = Some chain_dev1"
    "minor_to_mdev chain_devs 2 = Some chain_dev2"
    by (simp_all add: chain_devs_def minor_to_mdev_def)
  have f: "sync_after chain_dev0 = 1" "sync_after chain_dev1 = 2"
    "\<not> sync_blocked chain_dev1" "sync_blocked chain_dev2"
    by (simp_all add: chain_dev0_def chain_dev1_def chain_dev2_def mdev0_def idle_state_def
        sync_blocked_def)
  have "drbd_may_sync_now chain_devs chain_dev1 = Some False"
    by (subst drbd_may_sync_now.simps) (simp add: m f)
  then have r: "drbd_may_sync_now chain_devs chain_dev0 = Some False"
    by (subst drbd_may_sync_now.simps) (simp add: m f)
  have s: "spec_may_sync_now chain_devs chain_dev0"
    by (simp add: spec_may_sync_now_def m f)
  from r s show ?thesis by simp
qed

section \<open>Termination of the pause and resume recomputation\<close>

lemma unflag_fields:
  "sync_after (unflag d) = sync_after d"
  "dev_skipped (unflag d) = dev_skipped d"
  "conn (state (unflag d)) = conn (state d)"
  "peer_isp (state (unflag d)) = peer_isp (state d)"
  "user_isp (state (unflag d)) = user_isp (state d)"
  by (simp_all add: unflag_def dev_skipped_def)

lemma unflag_eq_fields:
  assumes "unflag d' = unflag d"
  shows "sync_after d' = sync_after d" "dev_skipped d' = dev_skipped d"
  using unflag_fields(1) [of d'] unflag_fields(1) [of d]
        unflag_fields(2) [of d'] unflag_fields(2) [of d] assms by simp_all

lemma unflag_set [simp]: "unflag (d\<lparr>state := (state d)\<lparr>aftr_isp := v\<rparr>\<rparr>) = unflag d"
  by (simp add: unflag_def)

lemma upd_flag_id:
  "(d\<lparr>state := (state d)\<lparr>aftr_isp := v\<rparr>\<rparr> = d) = (aftr_isp (state d) = v)"
proof
  assume "d\<lparr>state := (state d)\<lparr>aftr_isp := v\<rparr>\<rparr> = d"
  then have "aftr_isp (state (d\<lparr>state := (state d)\<lparr>aftr_isp := v\<rparr>\<rparr>)) = aftr_isp (state d)"
    by simp
  then show "aftr_isp (state d) = v" by simp
next
  assume "aftr_isp (state d) = v"
  then show "d\<lparr>state := (state d)\<lparr>aftr_isp := v\<rparr>\<rparr> = d" by auto
qed

lemma upd_state_id: "((state d)\<lparr>aftr_isp := v\<rparr> = state d) = (aftr_isp (state d) = v)"
proof
  assume "(state d)\<lparr>aftr_isp := v\<rparr> = state d"
  then have "aftr_isp ((state d)\<lparr>aftr_isp := v\<rparr>) = aftr_isp (state d)" by simp
  then show "aftr_isp (state d) = v" by simp
next
  assume "aftr_isp (state d) = v"
  then show "(state d)\<lparr>aftr_isp := v\<rparr> = state d" by auto
qed

lemma shape_length: "shape devs' = shape devs \<Longrightarrow> length devs' = length devs"
  by (metis length_map shape_def)

lemma shape_m2m:
  assumes "shape devs' = shape devs"
  shows "map_option unflag (minor_to_mdev devs' j) = map_option unflag (minor_to_mdev devs j)"
proof (cases "0 \<le> j \<and> nat j < length devs")
  case True
  then have "map_option unflag (devs' ! nat j) = shape devs' ! nat j"
    using shape_length [OF assms] by (simp add: shape_def)
  also have "\<dots> = map_option unflag (devs ! nat j)"
    using True by (simp add: assms) (simp add: shape_def)
  finally show ?thesis
    using True shape_length [OF assms] by (simp add: minor_to_mdev_def)
next
  case False
  then show ?thesis
    using shape_length [OF assms] by (auto simp: minor_to_mdev_def)
qed

lemma shape_none:
  "shape devs' = shape devs \<Longrightarrow> (minor_to_mdev devs' j = None) = (minor_to_mdev devs j = None)"
  using shape_m2m [of devs' devs j] by (metis option.map_disc_iff)

lemma shape_some:
  "shape devs' = shape devs \<Longrightarrow> minor_to_mdev devs' j = Some d' \<Longrightarrow>
   \<exists>d. minor_to_mdev devs j = Some d \<and> unflag d' = unflag d"
  using shape_m2m [of devs' devs j] by (cases "minor_to_mdev devs j") auto

lemma ranked_shape:
  assumes s: "shape devs' = shape devs" and r: "ranked r devs"
  shows "ranked r devs'"
  unfolding ranked_def
proof (intro allI impI)
  fix i d'
  assume a: "minor_to_mdev devs' i = Some d'" "sync_after d' \<noteq> -1"
    "minor_to_mdev devs' (sync_after d') \<noteq> None"
  from shape_some [OF s a(1)] obtain d where d: "minor_to_mdev devs i = Some d"
    "unflag d' = unflag d" by blast
  from d(2) have sa: "sync_after d' = sync_after d" by (rule unflag_eq_fields(1))
  from a(3) have "minor_to_mdev devs (sync_after d) \<noteq> None"
    by (simp add: sa shape_none [OF s])
  with r d(1) a(2) sa show "r (sync_after d') < r i"
    by (simp add: ranked_def)
qed

lemma rk_step:
  assumes "ranked r devs" "sync_after d \<noteq> -1" "minor_to_mdev devs (sync_after d) = Some p"
  shows "rk r devs p < rk r devs d"
proof -
  have d: "rk r devs d = Suc (r (sync_after d))" using assms(2,3) by (simp add: rk_def)
  show ?thesis
  proof (cases "sync_after p \<noteq> -1 \<and> minor_to_mdev devs (sync_after p) \<noteq> None")
    case True
    with assms(1,3) have "r (sync_after p) < r (sync_after d)" by (simp add: ranked_def)
    moreover from True have "rk r devs p = Suc (r (sync_after p))" by (auto simp: rk_def)
    ultimately show ?thesis using d by simp
  next
    case False
    then have "rk r devs p = 0" by (auto simp: rk_def)
    with d show ?thesis by simp
  qed
qed

lemma rk_le_slot:
  assumes "ranked r devs" "minor_to_mdev devs i = Some d"
  shows "rk r devs d \<le> r i"
proof (cases "sync_after d \<noteq> -1 \<and> minor_to_mdev devs (sync_after d) \<noteq> None")
  case True
  with assms have "r (sync_after d) < r i" by (simp add: ranked_def)
  moreover from True have "rk r devs d = Suc (r (sync_after d))" by (auto simp: rk_def)
  ultimately show ?thesis by simp
next
  case False
  then have "rk r devs d = 0" by (auto simp: rk_def)
  then show ?thesis by simp
qed

lemma may_sync_total:
  assumes "ranked r devs"
  shows "\<exists>b. drbd_may_sync_now devs d = Some b"
proof (induction "rk r devs d" arbitrary: d rule: less_induct)
  case less
  show ?case
  proof (cases "sync_after d = -1")
    case True
    then show ?thesis by (subst drbd_may_sync_now.simps) auto
  next
    case False
    show ?thesis
    proof (cases "minor_to_mdev devs (sync_after d)")
      case None
      with False show ?thesis by (subst drbd_may_sync_now.simps) auto
    next
      case (Some p)
      from rk_step [OF assms False Some] less obtain b where "drbd_may_sync_now devs p = Some b"
        by blast
      with False Some show ?thesis by (subst drbd_may_sync_now.simps) auto
    qed
  qed
qed

text \<open>The walk from a device only reads devices of smaller rank.\<close>

lemma may_sync_local:
  assumes r: "ranked r devs" and s: "shape devs' = shape devs"
    and low: "\<And>j. r j < k \<Longrightarrow> minor_to_mdev devs' j = minor_to_mdev devs j"
  shows "sync_after d' = sync_after d \<Longrightarrow> rk r devs d \<le> k \<Longrightarrow>
         drbd_may_sync_now devs' d' = drbd_may_sync_now devs d"
proof (induction "rk r devs d" arbitrary: d d' rule: less_induct)
  case less
  show ?case
  proof (cases "sync_after d = -1")
    case True
    then show ?thesis
      using less.prems(1)
      by (subst drbd_may_sync_now.simps, subst (2) drbd_may_sync_now.simps) simp
  next
    case False
    show ?thesis
    proof (cases "minor_to_mdev devs (sync_after d)")
      case None
      then have "minor_to_mdev devs' (sync_after d) = None" by (simp add: shape_none [OF s])
      with None False show ?thesis
        using less.prems(1)
        by (subst drbd_may_sync_now.simps, subst (2) drbd_may_sync_now.simps) simp
    next
      case (Some p)
      then have "rk r devs d = Suc (r (sync_after d))" using False by (simp add: rk_def)
      with less.prems(2) have "r (sync_after d) < k" by simp
      then have p': "minor_to_mdev devs' (sync_after d) = Some p" by (simp add: low Some)
      have lt: "rk r devs p < rk r devs d" by (rule rk_step [OF r False Some])
      with less.prems(2) have "rk r devs p \<le> k" by simp
      with less.hyps [OF lt refl] have "drbd_may_sync_now devs' p = drbd_may_sync_now devs p"
        by simp
      with False Some p' show ?thesis
        using less.prems(1)
        by (subst drbd_may_sync_now.simps, subst (2) drbd_may_sync_now.simps) simp
    qed
  qed
qed


lemma skipped_set_flag [simp]:
  "dev_skipped (d\<lparr>state := (state d)\<lparr>aftr_isp := v\<rparr>\<rparr>) = dev_skipped d"
  by (simp add: dev_skipped_def)

lemma unflag_pause [simp]: "unflag (pause_upd e d) = unflag d"
  by (simp add: pause_upd_def)

lemma unflag_resume [simp]: "unflag (resume_upd e d) = unflag d"
  by (simp add: resume_upd_def)

lemma pause_upd_idem: "pause_upd e (pause_upd e d) = pause_upd e d"
  by (simp add: pause_upd_def)

lemma resume_upd_idem: "resume_upd e (resume_upd e d) = resume_upd e d"
  by (simp add: resume_upd_def)

lemma pause_after_resume: "pause_upd e d = d \<Longrightarrow> pause_upd e (resume_upd e d) = resume_upd e d"
  by (auto simp: pause_upd_def resume_upd_def)

lemma m2m_nat: "minor_to_mdev devs (int i) = (if i < length devs then devs ! i else None)"
  by (simp add: minor_to_mdev_def)

lemma m2m_update:
  "i < length devs \<Longrightarrow>
   minor_to_mdev (devs[i := x]) j = (if j = int i then x else minor_to_mdev devs j)"
  by (auto simp: minor_to_mdev_def)

lemma pause_step_none:
  "minor_to_mdev devs (int i) = None \<Longrightarrow> pause_after_step devs i = Some (False, devs)"
  by (simp add: pause_after_step_def)

lemma resume_step_none:
  "minor_to_mdev devs (int i) = None \<Longrightarrow> resume_next_step devs i = Some (False, devs)"
  by (simp add: resume_next_step_def)

lemma set_aftr_isp_eq:
  "devs ! i = Some d \<Longrightarrow> i < length devs \<Longrightarrow>
   set_aftr_isp devs i d v =
     (aftr_isp (state d) \<noteq> v, devs[i := Some (d\<lparr>state := (state d)\<lparr>aftr_isp := v\<rparr>\<rparr>)])"
proof (cases "aftr_isp (state d) = v")
  case True
  assume a: "devs ! i = Some d" "i < length devs"
  from True have e1: "(state d)\<lparr>aftr_isp := v\<rparr> = state d" by (simp add: upd_state_id)
  show ?thesis
    unfolding set_aftr_isp_def drbd_set_state_def e1 using True by simp
next
  case False
  then have "(state d)\<lparr>aftr_isp := v\<rparr> \<noteq> state d" by (simp add: upd_state_id)
  with False show ?thesis
    by (simp add: set_aftr_isp_def drbd_set_state_def)
qed

lemma pause_step_some:
  assumes m: "minor_to_mdev devs (int i) = Some d" and b: "drbd_may_sync_now devs d = Some b"
  shows "pause_after_step devs i =
           Some (pause_upd (Some b) d \<noteq> d, devs[i := Some (pause_upd (Some b) d)])"
proof -
  from m have i: "i < length devs" "devs ! i = Some d"
    by (simp_all add: m2m_nat split: if_splits)
  then have id: "devs[i := Some d] = devs" by (metis list_update_id)
  show ?thesis
  proof (cases "\<not> dev_skipped d \<and> \<not> b")
    case True
    then have "pause_upd (Some b) d = d\<lparr>state := (state d)\<lparr>aftr_isp := True\<rparr>\<rparr>"
      by (simp add: pause_upd_def)
    moreover have "pause_after_step devs i = Some (set_aftr_isp devs i d True)"
      using True m b by (simp add: pause_after_step_def)
    ultimately show ?thesis
      using i by (simp add: set_aftr_isp_eq upd_flag_id)
  next
    case False
    then have "pause_upd (Some b) d = d" by (auto simp: pause_upd_def)
    moreover have "pause_after_step devs i = Some (False, devs)"
      using False m b by (auto simp: pause_after_step_def)
    ultimately show ?thesis by (simp add: id)
  qed
qed

lemma resume_step_some:
  assumes m: "minor_to_mdev devs (int i) = Some d" and b: "drbd_may_sync_now devs d = Some b"
  shows "resume_next_step devs i =
           Some (resume_upd (Some b) d \<noteq> d, devs[i := Some (resume_upd (Some b) d)])"
proof -
  from m have i: "i < length devs" "devs ! i = Some d"
    by (simp_all add: m2m_nat split: if_splits)
  then have id: "devs[i := Some d] = devs" by (metis list_update_id)
  show ?thesis
  proof (cases "\<not> dev_skipped d \<and> aftr_isp (state d) \<and> b")
    case True
    then have "resume_upd (Some b) d = d\<lparr>state := (state d)\<lparr>aftr_isp := False\<rparr>\<rparr>"
      by (simp add: resume_upd_def)
    moreover have "resume_next_step devs i = Some (set_aftr_isp devs i d False)"
      using True m b by (simp add: resume_next_step_def)
    ultimately show ?thesis
      using i True by (simp add: set_aftr_isp_eq upd_flag_id)
  next
    case False
    then have "resume_upd (Some b) d = d" by (auto simp: resume_upd_def)
    moreover have "resume_next_step devs i = Some (False, devs)"
      using False m b by (auto simp: resume_next_step_def)
    ultimately show ?thesis by (simp add: id)
  qed
qed

lemma agree_may:
  assumes r: "ranked r devs0" and j: "agree_below r k devs0 devs"
    and le: "r i \<le> k" and m: "minor_to_mdev devs i = Some d"
  shows "drbd_may_sync_now devs d = slot_may devs0 i"
proof -
  from j have s: "shape devs = shape devs0"
    and low: "\<And>j. r j < k \<Longrightarrow> minor_to_mdev devs j = minor_to_mdev devs0 j"
    by (simp_all add: agree_below_def)
  from shape_some [OF s m] obtain d0 where d0: "minor_to_mdev devs0 i = Some d0"
    "unflag d = unflag d0" by blast
  from d0(2) have sa: "sync_after d = sync_after d0" by (rule unflag_eq_fields(1))
  from rk_le_slot [OF r d0(1)] le have "rk r devs0 d0 \<le> k" by simp
  from may_sync_local [OF r s low sa this] d0(1) show ?thesis
    by (simp add: slot_may_def)
qed

lemma agree_settled_fix:
  assumes r: "ranked r devs0" and st: "settled r k devs0" and j: "agree_below r k devs0 devs"
    and lt: "r i < k" and m: "minor_to_mdev devs i = Some d"
  shows "pause_upd (slot_may devs0 i) d = d" "resume_upd (slot_may devs0 i) d = d"
proof -
  from j lt m have m0: "minor_to_mdev devs0 i = Some d" by (simp add: agree_below_def)
  then have e: "slot_may devs0 i = drbd_may_sync_now devs0 d" by (simp add: slot_may_def)
  from st lt m0 have g: "\<not> dev_skipped d \<Longrightarrow> drbd_may_sync_now devs0 d = Some (\<not> aftr_isp (state d))"
    by (simp add: settled_def)
  show "pause_upd (slot_may devs0 i) d = d"
    using g by (auto simp: pause_upd_def e upd_flag_id)
  show "resume_upd (slot_may devs0 i) d = d"
    using g by (auto simp: resume_upd_def e)
qed

lemma agree_update:
  assumes j: "agree_below r k devs0 devs" and i: "i < length devs" "devs ! i = Some d"
    and u: "unflag d' = unflag d" and same: "r (int i) < k \<Longrightarrow> d' = d"
  shows "agree_below r k devs0 (devs[i := Some d'])"
proof -
  have "shape (devs[i := Some d']) = (shape devs)[i := Some (unflag d')]"
    by (simp add: shape_def map_update)
  also have "\<dots> = shape devs"
    using i u by (metis (no_types, lifting) list_update_id nth_map option.simps(9) shape_def)
  finally have s: "shape (devs[i := Some d']) = shape devs0"
    using j by (simp add: agree_below_def)
  have "minor_to_mdev (devs[i := Some d']) j = minor_to_mdev devs0 j" if "r j < k" for j
  proof (cases "j = int i")
    case True
    with that same have "d' = d" by simp
    then have "devs[i := Some d'] = devs" using i by (metis list_update_id)
    with j that show ?thesis by (simp add: agree_below_def)
  next
    case False
    with j that i show ?thesis by (simp add: agree_below_def m2m_update)
  qed
  with s show ?thesis by (simp add: agree_below_def)
qed


lemma pause_fix_none: "minor_to_mdev devs j = None \<Longrightarrow> pause_fix devs0 devs j"
  by (simp add: pause_fix_def)

lemma resume_fix_none: "minor_to_mdev devs j = None \<Longrightarrow> resume_fix devs0 devs j"
  by (simp add: resume_fix_def)

lemma pause_step_J:
  assumes r: "ranked r devs0" and st: "settled r k devs0" and j: "agree_below r k devs0 devs"
  shows "\<exists>c devs'. pause_after_step devs i = Some (c, devs') \<and> agree_below r k devs0 devs' \<and>
           (r (int i) < k \<longrightarrow> \<not> c \<and> devs' = devs) \<and>
           (\<forall>j. r j \<le> k \<longrightarrow> (j = int i \<or> pause_fix devs0 devs j) \<longrightarrow> pause_fix devs0 devs' j)"
proof (cases "minor_to_mdev devs (int i)")
  case None
  then show ?thesis using j by (auto simp: pause_step_none pause_fix_none)
next
  case (Some d)
  from j have s: "shape devs = shape devs0" by (simp add: agree_below_def)
  have rd: "ranked r devs" by (rule ranked_shape [OF s r])
  from may_sync_total [OF rd] obtain b where b: "drbd_may_sync_now devs d = Some b" by blast
  define d' where "d' = pause_upd (Some b) d"
  from Some have i: "i < length devs" "devs ! i = Some d"
    by (simp_all add: m2m_nat split: if_splits)
  have step: "pause_after_step devs i = Some (d' \<noteq> d, devs[i := Some d'])"
    unfolding d'_def by (rule pause_step_some [OF Some b])
  have u: "unflag d' = unflag d" by (simp add: d'_def)
  have low: "d' = d" if "r (int i) < k"
  proof -
    from that have "r (int i) \<le> k" by simp
    from agree_may [OF r j this Some] b have "slot_may devs0 (int i) = Some b" by simp
    with agree_settled_fix(1) [OF r st j that Some] show ?thesis by (simp add: d'_def)
  qed
  have J': "agree_below r k devs0 (devs[i := Some d'])"
    by (rule agree_update [OF j i u low])
  have fx: "pause_fix devs0 (devs[i := Some d']) j"
    if le: "r j \<le> k" and c: "j = int i \<or> pause_fix devs0 devs j" for j
  proof (cases "j = int i")
    case True
    from agree_may [OF r j] le Some b True have e: "slot_may devs0 j = Some b" by simp
    have "minor_to_mdev (devs[i := Some d']) j = Some d'"
      using True i by (simp add: m2m_update)
    then show ?thesis by (simp add: pause_fix_def e d'_def pause_upd_idem)
  next
    case False
    with c have "pause_fix devs0 devs j" by simp
    moreover have "minor_to_mdev (devs[i := Some d']) j = minor_to_mdev devs j"
      using False i by (simp add: m2m_update)
    ultimately show ?thesis by (simp add: pause_fix_def)
  qed
  have same: "devs[i := Some d'] = devs" if "d' = d"
    using that i by (metis list_update_id)
  show ?thesis
    using step J' low same fx by auto
qed

lemma resume_step_J:
  assumes r: "ranked r devs0" and st: "settled r k devs0" and j: "agree_below r k devs0 devs"
  shows "\<exists>c devs'. resume_next_step devs i = Some (c, devs') \<and> agree_below r k devs0 devs' \<and>
           (r (int i) < k \<longrightarrow> \<not> c \<and> devs' = devs) \<and>
           (\<forall>j. r j \<le> k \<longrightarrow> pause_fix devs0 devs j \<longrightarrow> pause_fix devs0 devs' j) \<and>
           (\<forall>j. r j \<le> k \<longrightarrow> (j = int i \<or> resume_fix devs0 devs j) \<longrightarrow> resume_fix devs0 devs' j)"
proof (cases "minor_to_mdev devs (int i)")
  case None
  then show ?thesis using j by (auto simp: resume_step_none resume_fix_none)
next
  case (Some d)
  from j have s: "shape devs = shape devs0" by (simp add: agree_below_def)
  have rd: "ranked r devs" by (rule ranked_shape [OF s r])
  from may_sync_total [OF rd] obtain b where b: "drbd_may_sync_now devs d = Some b" by blast
  define d' where "d' = resume_upd (Some b) d"
  from Some have i: "i < length devs" "devs ! i = Some d"
    by (simp_all add: m2m_nat split: if_splits)
  have step: "resume_next_step devs i = Some (d' \<noteq> d, devs[i := Some d'])"
    unfolding d'_def by (rule resume_step_some [OF Some b])
  have u: "unflag d' = unflag d" by (simp add: d'_def)
  have low: "d' = d" if "r (int i) < k"
  proof -
    from that have "r (int i) \<le> k" by simp
    from agree_may [OF r j this Some] b have "slot_may devs0 (int i) = Some b" by simp
    with agree_settled_fix(2) [OF r st j that Some] show ?thesis by (simp add: d'_def)
  qed
  have J': "agree_below r k devs0 (devs[i := Some d'])"
    by (rule agree_update [OF j i u low])
  have px: "pause_fix devs0 (devs[i := Some d']) j"
    if le: "r j \<le> k" and c: "pause_fix devs0 devs j" for j
  proof (cases "j = int i")
    case True
    from agree_may [OF r j] le Some b True have e: "slot_may devs0 j = Some b" by simp
    from e True have e': "slot_may devs0 (int i) = Some b" by simp
    from c True Some have "pause_upd (Some b) d = d" by (simp add: pause_fix_def e')
    then have "pause_upd (Some b) d' = d'" unfolding d'_def by (rule pause_after_resume)
    moreover have "minor_to_mdev (devs[i := Some d']) j = Some d'"
      using True i by (simp add: m2m_update)
    ultimately show ?thesis by (simp add: pause_fix_def e)
  next
    case False
    have "minor_to_mdev (devs[i := Some d']) j = minor_to_mdev devs j"
      using False i by (simp add: m2m_update)
    with c show ?thesis by (simp add: pause_fix_def)
  qed
  have fx: "resume_fix devs0 (devs[i := Some d']) j"
    if le: "r j \<le> k" and c: "j = int i \<or> resume_fix devs0 devs j" for j
  proof (cases "j = int i")
    case True
    from agree_may [OF r j] le Some b True have e: "slot_may devs0 j = Some b" by simp
    have "minor_to_mdev (devs[i := Some d']) j = Some d'"
      using True i by (simp add: m2m_update)
    then show ?thesis by (simp add: resume_fix_def e d'_def resume_upd_idem)
  next
    case False
    with c have "resume_fix devs0 devs j" by simp
    moreover have "minor_to_mdev (devs[i := Some d']) j = minor_to_mdev devs j"
      using False i by (simp add: m2m_update)
    ultimately show ?thesis by (simp add: resume_fix_def)
  qed
  have same: "devs[i := Some d'] = devs" if "d' = d"
    using that i by (metis list_update_id)
  show ?thesis
    using step J' low same px fx by auto
qed

lemma pause_loop_J:
  assumes r: "ranked r devs0" and st: "settled r k devs0"
  shows "agree_below r k devs0 devs \<Longrightarrow>
         \<exists>c devs'. pause_after_loop minors devs rv = Some (c, devs') \<and>
           agree_below r k devs0 devs' \<and>
           ((\<forall>i\<in>set minors. r (int i) < k) \<longrightarrow> c = rv \<and> devs' = devs) \<and>
           (\<forall>j. r j \<le> k \<longrightarrow> (j \<in> int ` set minors \<or> pause_fix devs0 devs j) \<longrightarrow>
                pause_fix devs0 devs' j)"
proof (induction minors arbitrary: devs rv)
  case Nil
  then show ?case by simp
next
  case (Cons i minors)
  from pause_step_J [OF r st Cons.prems, of i] obtain c1 devs1 where
    s: "pause_after_step devs i = Some (c1, devs1)" and j1: "agree_below r k devs0 devs1"
    and q1: "r (int i) < k \<longrightarrow> \<not> c1 \<and> devs1 = devs"
    and f1: "\<And>j. r j \<le> k \<Longrightarrow> j = int i \<or> pause_fix devs0 devs j \<Longrightarrow> pause_fix devs0 devs1 j"
    by blast
  from Cons.IH [OF j1, of "rv \<or> c1"] obtain c devs' where
    l: "pause_after_loop minors devs1 (rv \<or> c1) = Some (c, devs')"
    and j2: "agree_below r k devs0 devs'"
    and q2: "(\<forall>i\<in>set minors. r (int i) < k) \<longrightarrow> c = (rv \<or> c1) \<and> devs' = devs1"
    and f2: "\<And>j. r j \<le> k \<Longrightarrow> j \<in> int ` set minors \<or> pause_fix devs0 devs1 j \<Longrightarrow>
                 pause_fix devs0 devs' j"
    by blast
  have "pause_after_loop (i # minors) devs rv = Some (c, devs')"
    using s l by simp
  moreover have "(\<forall>i\<in>set (i # minors). r (int i) < k) \<longrightarrow> c = rv \<and> devs' = devs"
    using q1 q2 by auto
  moreover have "pause_fix devs0 devs' j"
    if "r j \<le> k" "j \<in> int ` set (i # minors) \<or> pause_fix devs0 devs j" for j
    using that f1 [of j] f2 [of j] by auto
  ultimately show ?case using j2 by blast
qed

lemma resume_loop_J:
  assumes r: "ranked r devs0" and st: "settled r k devs0"
  shows "agree_below r k devs0 devs \<Longrightarrow>
         \<exists>c devs'. resume_next_loop minors devs rv = Some (c, devs') \<and>
           agree_below r k devs0 devs' \<and>
           ((\<forall>i\<in>set minors. r (int i) < k) \<longrightarrow> c = rv \<and> devs' = devs) \<and>
           (\<forall>j. r j \<le> k \<longrightarrow> pause_fix devs0 devs j \<longrightarrow> pause_fix devs0 devs' j) \<and>
           (\<forall>j. r j \<le> k \<longrightarrow> (j \<in> int ` set minors \<or> resume_fix devs0 devs j) \<longrightarrow>
                resume_fix devs0 devs' j)"
proof (induction minors arbitrary: devs rv)
  case Nil
  then show ?case by simp
next
  case (Cons i minors)
  from resume_step_J [OF r st Cons.prems, of i] obtain c1 devs1 where
    s: "resume_next_step devs i = Some (c1, devs1)" and j1: "agree_below r k devs0 devs1"
    and q1: "r (int i) < k \<longrightarrow> \<not> c1 \<and> devs1 = devs"
    and p1: "\<And>j. r j \<le> k \<Longrightarrow> pause_fix devs0 devs j \<Longrightarrow> pause_fix devs0 devs1 j"
    and f1: "\<And>j. r j \<le> k \<Longrightarrow> j = int i \<or> resume_fix devs0 devs j \<Longrightarrow> resume_fix devs0 devs1 j"
    by blast
  from Cons.IH [OF j1, of "rv \<or> c1"] obtain c devs' where
    l: "resume_next_loop minors devs1 (rv \<or> c1) = Some (c, devs')"
    and j2: "agree_below r k devs0 devs'"
    and q2: "(\<forall>i\<in>set minors. r (int i) < k) \<longrightarrow> c = (rv \<or> c1) \<and> devs' = devs1"
    and p2: "\<And>j. r j \<le> k \<Longrightarrow> pause_fix devs0 devs1 j \<Longrightarrow> pause_fix devs0 devs' j"
    and f2: "\<And>j. r j \<le> k \<Longrightarrow> j \<in> int ` set minors \<or> resume_fix devs0 devs1 j \<Longrightarrow>
                 resume_fix devs0 devs' j"
    by blast
  have "resume_next_loop (i # minors) devs rv = Some (c, devs')"
    using s l by simp
  moreover have "(\<forall>i\<in>set (i # minors). r (int i) < k) \<longrightarrow> c = rv \<and> devs' = devs"
    using q1 q2 by auto
  moreover have "pause_fix devs0 devs' j" if "r j \<le> k" "pause_fix devs0 devs j" for j
    using that p1 [of j] p2 [of j] by auto
  moreover have "resume_fix devs0 devs' j"
    if "r j \<le> k" "j \<in> int ` set (i # minors) \<or> resume_fix devs0 devs j" for j
    using that f1 [of j] f2 [of j] by auto
  ultimately show ?case using j2 by blast
qed


lemma agree_refl: "agree_below r k devs devs"
  by (simp add: agree_below_def)

lemma m2m_range: "minor_to_mdev devs j = Some d \<Longrightarrow> j \<in> int ` set [0..<length devs]"
proof -
  assume "minor_to_mdev devs j = Some d"
  then have "0 \<le> j" "nat j < length devs" by (simp_all add: minor_to_mdev_def split: if_splits)
  then have "nat j \<in> set [0..<length devs]" "j = int (nat j)" by simp_all
  then show ?thesis by blast
qed

lemma iteration:
  assumes r: "ranked r devs0" and st: "settled r k devs0"
  shows "\<exists>c1 devs1 c2 devs2.
           drbd_pause_after devs0 = Some (c1, devs1) \<and>
           drbd_resume_next devs1 = Some (c2, devs2) \<and>
           shape devs2 = shape devs0 \<and> settled r (Suc k) devs2 \<and>
           ((\<forall>i<length devs0. r (int i) < k) \<longrightarrow> \<not> c1 \<and> \<not> c2)"
proof -
  from pause_loop_J [OF r st agree_refl, of "[0..<length devs0]" False] obtain c1 devs1 where
    l1: "pause_after_loop [0..<length devs0] devs0 False = Some (c1, devs1)"
    and j1: "agree_below r k devs0 devs1"
    and q1: "(\<forall>i\<in>set [0..<length devs0]. r (int i) < k) \<longrightarrow> c1 = False \<and> devs1 = devs0"
    and f1: "\<And>j. r j \<le> k \<Longrightarrow> j \<in> int ` set [0..<length devs0] \<or> pause_fix devs0 devs0 j \<Longrightarrow>
                 pause_fix devs0 devs1 j"
    by blast
  from j1 have s1: "shape devs1 = shape devs0" by (simp add: agree_below_def)
  then have n1: "length devs1 = length devs0" by (rule shape_length)
  from resume_loop_J [OF r st j1, of "[0..<length devs0]" False] obtain c2 devs2 where
    l2: "resume_next_loop [0..<length devs0] devs1 False = Some (c2, devs2)"
    and j2: "agree_below r k devs0 devs2"
    and q2: "(\<forall>i\<in>set [0..<length devs0]. r (int i) < k) \<longrightarrow> c2 = False \<and> devs2 = devs1"
    and p2: "\<And>j. r j \<le> k \<Longrightarrow> pause_fix devs0 devs1 j \<Longrightarrow> pause_fix devs0 devs2 j"
    and f2: "\<And>j. r j \<le> k \<Longrightarrow> j \<in> int ` set [0..<length devs0] \<or> resume_fix devs0 devs1 j \<Longrightarrow>
                 resume_fix devs0 devs2 j"
    by blast
  from j2 have s2: "shape devs2 = shape devs0" by (simp add: agree_below_def)
  then have n2: "length devs2 = length devs0" by (rule shape_length)
  have rd2: "ranked r devs2" by (rule ranked_shape [OF s2 r])
  have "settled r (Suc k) devs2"
    unfolding settled_def
  proof (intro allI impI)
    fix i d
    assume lt: "r i < Suc k" and m: "minor_to_mdev devs2 i = Some d" and ns: "\<not> dev_skipped d"
    from lt have le: "r i \<le> k" by simp
    from m2m_range [OF m] n2 have rng: "i \<in> int ` set [0..<length devs0]" by simp
    from shape_some [OF s2 m] s1 have m1: "minor_to_mdev devs1 i \<noteq> None"
      by (metis option.distinct(1) shape_none)
    from f1 [OF le] rng have "pause_fix devs0 devs1 i" by simp
    from p2 [OF le this] m have pf: "pause_upd (slot_may devs0 i) d = d"
      by (simp add: pause_fix_def)
    from f2 [OF le] rng m have rf: "resume_upd (slot_may devs0 i) d = d"
      by (simp add: resume_fix_def)
    from agree_may [OF r j2 le m] have e: "drbd_may_sync_now devs2 d = slot_may devs0 i" .
    from may_sync_total [OF rd2] obtain b where b: "drbd_may_sync_now devs2 d = Some b" by blast
    with e have sm: "slot_may devs0 i = Some b" by simp
    from pf ns have 1: "\<not> b \<Longrightarrow> aftr_isp (state d)"
      by (simp add: pause_upd_def sm upd_flag_id)
    from rf ns have 2: "b \<Longrightarrow> \<not> aftr_isp (state d)"
      by (auto simp: resume_upd_def sm upd_flag_id)
    from 1 2 have "b = (\<not> aftr_isp (state d))" by blast
    with b show "drbd_may_sync_now devs2 d = Some (\<not> aftr_isp (state d))" by simp
  qed
  moreover have "drbd_pause_after devs0 = Some (c1, devs1)"
    using l1 by (simp add: drbd_pause_after_def)
  moreover have "drbd_resume_next devs1 = Some (c2, devs2)"
    using l2 n1 by (simp add: drbd_resume_next_def)
  moreover have "(\<forall>i<length devs0. r (int i) < k) \<longrightarrow> \<not> c1 \<and> \<not> c2"
    using q1 q2 by simp
  ultimately show ?thesis using s2 by blast
qed

lemma pause_loop_mono:
  "pause_after_loop minors devs rv = Some (c, devs') \<Longrightarrow> rv \<Longrightarrow> c"
  by (induction minors arbitrary: devs rv) (auto split: option.splits)

lemma resume_loop_mono:
  "resume_next_loop minors devs rv = Some (c, devs') \<Longrightarrow> rv \<Longrightarrow> c"
  by (induction minors arbitrary: devs rv) (auto split: option.splits)

lemma pause_step_quiet:
  assumes "pause_after_step devs i = Some (False, devs')"
  shows "devs' = devs"
    and "minor_to_mdev devs (int i) = Some d \<Longrightarrow> \<not> dev_skipped d \<Longrightarrow>
         drbd_may_sync_now devs d = Some True \<or>
         (drbd_may_sync_now devs d = Some False \<and> aftr_isp (state d))"
proof -
  show "devs' = devs"
  proof (cases "minor_to_mdev devs (int i)")
    case None
    with assms show ?thesis by (simp add: pause_step_none)
  next
    case (Some x)
    show ?thesis
    proof (cases "drbd_may_sync_now devs x")
      case None
      with assms Some show ?thesis by (simp add: pause_after_step_def split: if_splits)
    next
      case b: (Some b)
      from Some have i: "i < length devs" "devs ! i = Some x"
        by (simp_all add: m2m_nat split: if_splits)
      from assms
      have "Some (pause_upd (Some b) x \<noteq> x, devs[i := Some (pause_upd (Some b) x)]) =
              Some (False, devs')" unfolding pause_step_some [OF Some b] .
      then have "pause_upd (Some b) x = x" "devs' = devs[i := Some (pause_upd (Some b) x)]"
        by auto
      then show ?thesis using i by (metis list_update_id)
    qed
  qed
  assume m: "minor_to_mdev devs (int i) = Some d" and ns: "\<not> dev_skipped d"
  show "drbd_may_sync_now devs d = Some True \<or>
         (drbd_may_sync_now devs d = Some False \<and> aftr_isp (state d))"
  proof (cases "drbd_may_sync_now devs d")
    case None
    with assms m ns show ?thesis by (simp add: pause_after_step_def)
  next
    case (Some b)
    from assms pause_step_some [OF m Some] have "pause_upd (Some b) d = d" by simp
    with ns have "\<not> b \<Longrightarrow> aftr_isp (state d)" by (simp add: pause_upd_def upd_flag_id)
    with Some show ?thesis by (cases b) simp_all
  qed
qed

lemma resume_step_quiet:
  assumes "resume_next_step devs i = Some (False, devs')"
  shows "devs' = devs"
    and "minor_to_mdev devs (int i) = Some d \<Longrightarrow> \<not> dev_skipped d \<Longrightarrow> aftr_isp (state d) \<Longrightarrow>
         drbd_may_sync_now devs d = Some False"
proof -
  show "devs' = devs"
  proof (cases "minor_to_mdev devs (int i)")
    case None
    with assms show ?thesis by (simp add: resume_step_none)
  next
    case (Some x)
    show ?thesis
    proof (cases "drbd_may_sync_now devs x")
      case None
      with assms Some show ?thesis by (simp add: resume_next_step_def split: if_splits)
    next
      case b: (Some b)
      from Some have i: "i < length devs" "devs ! i = Some x"
        by (simp_all add: m2m_nat split: if_splits)
      from assms
      have "Some (resume_upd (Some b) x \<noteq> x, devs[i := Some (resume_upd (Some b) x)]) =
              Some (False, devs')" unfolding resume_step_some [OF Some b] .
      then have "resume_upd (Some b) x = x" "devs' = devs[i := Some (resume_upd (Some b) x)]"
        by auto
      then show ?thesis using i by (metis list_update_id)
    qed
  qed
  assume m: "minor_to_mdev devs (int i) = Some d" and ns: "\<not> dev_skipped d"
    and fl: "aftr_isp (state d)"
  show "drbd_may_sync_now devs d = Some False"
  proof (cases "drbd_may_sync_now devs d")
    case None
    with assms m ns fl show ?thesis by (simp add: resume_next_step_def)
  next
    case (Some b)
    from assms resume_step_some [OF m Some] have "resume_upd (Some b) d = d" by simp
    with ns fl have "\<not> b" by (auto simp: resume_upd_def upd_flag_id)
    with Some show ?thesis by simp
  qed
qed

lemma pause_loop_quiet:
  "pause_after_loop minors devs False = Some (False, devs') \<Longrightarrow>
   devs' = devs \<and> (\<forall>i\<in>set minors. pause_after_step devs i = Some (False, devs))"
proof (induction minors arbitrary: devs)
  case Nil
  then show ?case by simp
next
  case (Cons i minors)
  from Cons.prems obtain c devs1 where s: "pause_after_step devs i = Some (c, devs1)"
    and l: "pause_after_loop minors devs1 c = Some (False, devs')"
    by (auto split: option.splits)
  from pause_loop_mono [OF l] have c: "\<not> c" by blast
  with s have d1: "devs1 = devs" by (simp add: pause_step_quiet(1))
  from Cons.IH [of devs] l c d1 s show ?case by simp
qed

lemma resume_loop_quiet:
  "resume_next_loop minors devs False = Some (False, devs') \<Longrightarrow>
   devs' = devs \<and> (\<forall>i\<in>set minors. resume_next_step devs i = Some (False, devs))"
proof (induction minors arbitrary: devs)
  case Nil
  then show ?case by simp
next
  case (Cons i minors)
  from Cons.prems obtain c devs1 where s: "resume_next_step devs i = Some (c, devs1)"
    and l: "resume_next_loop minors devs1 c = Some (False, devs')"
    by (auto split: option.splits)
  from resume_loop_mono [OF l] have c: "\<not> c" by blast
  with s have d1: "devs1 = devs" by (simp add: resume_step_quiet(1))
  from Cons.IH [of devs] l c d1 s show ?case by simp
qed

text \<open>When neither pass reports a change, the table is as before and the flags agree.\<close>

lemma quiet_round:
  assumes p: "drbd_pause_after devs = Some (False, devs1)"
    and q: "drbd_resume_next devs1 = Some (False, devs2)"
  shows "devs2 = devs \<and> flags_agree devs"
proof -
  from p pause_loop_quiet [of "[0..<length devs]" devs devs1]
  have d1: "devs1 = devs" and ps: "\<forall>i<length devs. pause_after_step devs i = Some (False, devs)"
    by (simp_all add: drbd_pause_after_def)
  from q d1 resume_loop_quiet [of "[0..<length devs]" devs devs2]
  have d2: "devs2 = devs" and rs: "\<forall>i<length devs. resume_next_step devs i = Some (False, devs)"
    by (simp_all add: drbd_resume_next_def)
  have "flags_agree devs"
    unfolding flags_agree_def list_all_length
  proof (intro allI impI)
    fix i assume i: "i < length devs"
    show "case devs ! i of None \<Rightarrow> True
          | Some d \<Rightarrow> dev_skipped d \<or> drbd_may_sync_now devs d = Some (\<not> aftr_isp (state d))"
    proof (cases "devs ! i")
      case None
      then show ?thesis by simp
    next
      case (Some d)
      with i have m: "minor_to_mdev devs (int i) = Some d" by (simp add: m2m_nat)
      from ps i have a: "pause_after_step devs i = Some (False, devs)" by simp
      from rs i have b: "resume_next_step devs i = Some (False, devs)" by simp
      have "drbd_may_sync_now devs d = Some (\<not> aftr_isp (state d))" if ns: "\<not> dev_skipped d"
        using pause_step_quiet(2) [OF a m ns] resume_step_quiet(2) [OF b m ns]
        by (cases "aftr_isp (state d)") auto
      with Some show ?thesis by auto
    qed
  qed
  with d2 show ?thesis by simp
qed

lemma alter_sa_loop_terminates:
  assumes bound: "\<forall>i<n. r (int i) < K"
  shows "length devs = n \<Longrightarrow> ranked r devs \<Longrightarrow> settled r k devs \<Longrightarrow>
         \<exists>out. alter_sa_loop devs = Some out \<and> flags_agree out \<and> shape out = shape devs"
proof (induction "Suc K - k" arbitrary: devs k rule: less_induct)
  case less
  from iteration [OF less.prems(2,3)] obtain c1 devs1 c2 devs2 where
    p: "drbd_pause_after devs = Some (c1, devs1)"
    and q: "drbd_resume_next devs1 = Some (c2, devs2)"
    and s2: "shape devs2 = shape devs" and st2: "settled r (Suc k) devs2"
    and quiet: "(\<forall>i<length devs. r (int i) < k) \<longrightarrow> \<not> c1 \<and> \<not> c2"
    by blast
  have unf: "alter_sa_loop devs = (if c1 \<or> c2 then alter_sa_loop devs2 else Some devs2)"
    using p q by (subst alter_sa_loop.simps) simp
  show ?case
  proof (cases "c1 \<or> c2")
    case True
    with quiet obtain i where "i < length devs" "\<not> r (int i) < k" by blast
    with bound less.prems(1) have "k < K" by (metis le_less_trans not_le_imp_less)
    then have m: "Suc K - Suc k < Suc K - k" by simp
    from shape_length [OF s2] less.prems(1) have n2: "length devs2 = n" by simp
    from less.hyps [OF m n2 ranked_shape [OF s2 less.prems(2)] st2] obtain out where
      "alter_sa_loop devs2 = Some out" "flags_agree out" "shape out = shape devs2" by blast
    with True unf s2 show ?thesis by simp
  next
    case False
    with p q have "devs2 = devs \<and> flags_agree devs" by (simp add: quiet_round)
    with False unf show ?thesis by simp
  qed
qed

lemma settled_0: "settled r 0 devs"
  by (simp add: settled_def)

lemma acyclic_ranked:
  assumes "acyclic_after devs"
  shows "ranked (chain_len devs) devs"
  unfolding ranked_def
proof (intro allI impI)
  fix i d
  assume m: "minor_to_mdev devs i = Some d" and a: "sync_after d \<noteq> -1"
    and e: "minor_to_mdev devs (sync_after d) \<noteq> None"
  from e obtain p where p: "minor_to_mdev devs (sync_after d) = Some p" by blast
  from m have "0 \<le> i" "nat i < length devs" "devs ! nat i = Some d"
    by (simp_all add: minor_to_mdev_def split: if_splits)
  with assms have "chain_ends (length devs) devs d"
    by (auto simp: acyclic_after_def list_all_length split: option.splits)
  then have l: "chain_ends (LEAST n. chain_ends n devs d) devs d" by (rule LeastI)
  define L where "L = (LEAST n. chain_ends n devs d)"
  from a p have "\<not> chain_ends 0 devs d" by simp
  with l have "L \<noteq> 0" unfolding L_def by metis
  then obtain m' where L: "L = Suc m'" by (cases L) simp_all
  with l a p have "chain_ends m' devs p" by (simp add: L_def)
  then have "(LEAST n. chain_ends n devs p) \<le> m'" by (rule Least_le)
  with L have "(LEAST n. chain_ends n devs p) < L" by simp
  with m p show "chain_len devs (sync_after d) < chain_len devs i"
    by (simp add: chain_len_def L_def)
qed

text \<open>
  C3 (as amended). For every acyclic dependency configuration, the loop of
  \<open>drbd_alter_sa\<close> (pause pass, resume pass, until neither reports a change) returns, and
  in the table it returns the dependency-pause flag of every configured device (every
  device that is not both \<open>StandAlone\<close> and \<open>Diskless\<close>, which both passes skip) is set
  exactly when \<open>_drbd_may_sync_now\<close> returns false for it.
\<close>

theorem alter_sa_terminates:
  assumes "acyclic_after (devs[i := map_option (\<lambda>mdev. mdev\<lparr>sync_after := na\<rparr>) (devs ! i)])"
  shows "\<exists>out. drbd_alter_sa devs i na = Some out \<and> flags_agree out"
proof -
  define devs0 where "devs0 = devs[i := map_option (\<lambda>mdev. mdev\<lparr>sync_after := na\<rparr>) (devs ! i)]"
  define K where "K = Suc (Max (insert 0 ((\<lambda>i. chain_len devs0 (int i)) ` {..<length devs0})))"
  have "\<forall>i<length devs0. chain_len devs0 (int i) < K"
    unfolding K_def by (auto simp: less_Suc_eq_le intro!: Max_ge)
  from alter_sa_loop_terminates [OF this refl acyclic_ranked settled_0] assms
  obtain out where "alter_sa_loop devs0 = Some out" "flags_agree out"
    unfolding devs0_def by blast
  then show ?thesis by (auto simp: drbd_alter_sa_def devs0_def)
qed


lemma dev_facts:
  "sync_after dev_a = -1" "sync_blocked dev_a" "\<not> dev_skipped dev_a" "\<not> aftr_isp (state dev_a)"
  "sync_after dev_b = 0" "\<not> dev_skipped dev_b" "\<not> aftr_isp (state dev_b)"
  "sync_after dev_b_paused = 0" "\<not> dev_skipped dev_b_paused" "aftr_isp (state dev_b_paused)"
  "sync_after dev_unconf = 0" "dev_skipped dev_unconf" "\<not> aftr_isp (state dev_unconf)"
  by (simp_all add: dev_a_def dev_b_def dev_b_paused_def dev_unconf_def mdev0_def idle_state_def
      sync_blocked_def dev_skipped_def)

lemma may_a: "drbd_may_sync_now devs dev_a = Some True"
  by (subst drbd_may_sync_now.simps) (simp add: dev_facts)

lemma may_after_a:
  "sync_after d = 0 \<Longrightarrow> drbd_may_sync_now (Some dev_a # rest) d = Some False"
  by (subst drbd_may_sync_now.simps) (simp add: dev_facts minor_to_mdev_def)

lemma upt2: "[0..<2] = [0, 1]" "[0..<Suc (Suc 0)] = [0, 1]"
  by (simp_all add: upt_rec)

lemma round_b:
  "drbd_pause_after [Some dev_a, Some dev_b] = Some (True, [Some dev_a, Some dev_b_paused])"
  by (simp add: drbd_pause_after_def upt2 pause_after_step_def minor_to_mdev_def dev_facts may_a
      may_after_a set_aftr_isp_def drbd_set_state_def dev_b_paused_def upd_state_id)

lemma round_b2:
  "drbd_resume_next [Some dev_a, Some dev_b_paused] = Some (False, [Some dev_a, Some dev_b_paused])"
  by (simp add: drbd_resume_next_def upt2 resume_next_step_def minor_to_mdev_def dev_facts may_a
      may_after_a)

lemma round_b3:
  "drbd_pause_after [Some dev_a, Some dev_b_paused] = Some (False, [Some dev_a, Some dev_b_paused])"
proof -
  have "(state dev_b_paused)\<lparr>aftr_isp := True\<rparr> = state dev_b_paused"
    by (simp add: upd_state_id dev_facts)
  then show ?thesis
    by (simp add: drbd_pause_after_def upt2 pause_after_step_def minor_to_mdev_def dev_facts may_a
        may_after_a set_aftr_isp_def drbd_set_state_def)
qed

lemma alter_b:
  "drbd_alter_sa [Some dev_a, Some dev_b] 1 0 = Some [Some dev_a, Some dev_b_paused]"
proof -
  have "dev_b\<lparr>sync_after := 0\<rparr> = dev_b" by (simp add: dev_b_def)
  then have "drbd_alter_sa [Some dev_a, Some dev_b] 1 0 = alter_sa_loop [Some dev_a, Some dev_b]"
    by (simp add: drbd_alter_sa_def)
  also have "\<dots> = alter_sa_loop [Some dev_a, Some dev_b_paused]"
    by (subst alter_sa_loop.simps) (simp add: round_b round_b2)
  also have "\<dots> = Some [Some dev_a, Some dev_b_paused]"
    by (subst alter_sa_loop.simps) (simp add: round_b3 round_b2)
  finally show ?thesis .
qed

lemma acyclic_ab: "acyclic_after [Some dev_a, Some dev_b]"
  by (simp add: acyclic_after_def dev_facts numeral_2_eq_2 minor_to_mdev_def)

theorem alter_sa_terminates_witness:
  "acyclic_after ([Some dev_a, Some dev_b]
      [1 := map_option (\<lambda>mdev. mdev\<lparr>sync_after := 0\<rparr>) ([Some dev_a, Some dev_b] ! 1)]) \<and>
   drbd_alter_sa [Some dev_a, Some dev_b] 1 0 = Some [Some dev_a, Some dev_b_paused] \<and>
   flags_agree [Some dev_a, Some dev_b_paused]"
proof -
  have e: "dev_b\<lparr>sync_after := 0\<rparr> = dev_b" by (simp add: dev_b_def)
  have a: "acyclic_after ([Some dev_a, Some dev_b]
      [1 := map_option (\<lambda>mdev. mdev\<lparr>sync_after := 0\<rparr>) ([Some dev_a, Some dev_b] ! 1)])"
    by (simp add: e acyclic_ab)
  from alter_sa_terminates [OF a] obtain out where
    "drbd_alter_sa [Some dev_a, Some dev_b] 1 0 = Some out" "flags_agree out" by blast
  with alter_b a show ?thesis by simp
qed

lemma quiet_unconf:
  "drbd_pause_after [Some dev_a, Some dev_unconf] = Some (False, [Some dev_a, Some dev_unconf])"
  "drbd_resume_next [Some dev_a, Some dev_unconf] = Some (False, [Some dev_a, Some dev_unconf])"
  by (simp_all add: drbd_pause_after_def drbd_resume_next_def upt2 pause_after_step_def
      resume_next_step_def minor_to_mdev_def dev_facts may_a)

text \<open>
  C3 (as stated) fails for a device that both passes skip: an unconfigured device
  (\<open>StandAlone\<close>, \<open>Diskless\<close>) whose prerequisite is a sync source is not eligible, and the
  loop returns with its flag still clear.
\<close>

theorem alter_sa_unconfigured_counterexample:
  "acyclic_after [Some dev_a, Some dev_unconf] \<and>
   drbd_alter_sa [Some dev_a, Some dev_unconf] 1 0 = Some [Some dev_a, Some dev_unconf] \<and>
   \<not> aftr_isp (state dev_unconf) \<and>
   drbd_may_sync_now [Some dev_a, Some dev_unconf] dev_unconf = Some False \<and>
   \<not> flags_agree_all [Some dev_a, Some dev_unconf]"
proof -
  have a: "acyclic_after [Some dev_a, Some dev_unconf]"
    by (simp add: acyclic_after_def dev_facts numeral_2_eq_2 minor_to_mdev_def)
  have "dev_unconf\<lparr>sync_after := 0\<rparr> = dev_unconf" by (simp add: dev_unconf_def)
  then have "drbd_alter_sa [Some dev_a, Some dev_unconf] 1 0 =
             alter_sa_loop [Some dev_a, Some dev_unconf]"
    by (simp add: drbd_alter_sa_def)
  also have "\<dots> = Some [Some dev_a, Some dev_unconf]"
    by (subst alter_sa_loop.simps) (simp add: quiet_unconf)
  finally have b: "drbd_alter_sa [Some dev_a, Some dev_unconf] 1 0 =
                   Some [Some dev_a, Some dev_unconf]" .
  have m: "drbd_may_sync_now [Some dev_a, Some dev_unconf] dev_unconf = Some False"
    by (simp add: may_after_a dev_facts)
  have "\<not> flags_agree_all [Some dev_a, Some dev_unconf]"
    by (simp add: flags_agree_all_def m dev_facts)
  with a b m show ?thesis by (simp add: dev_facts)
qed


section \<open>Properties of the worker loop\<close>

text \<open>
  C4. A dispatch of the worker loop calls the callback of the popped item with the
  cancel flag \<open>conn < Connected\<close>, read at dispatch time; when the callback fails, the
  connection state is forced to \<open>NetworkFailure\<close> if it is at or above \<open>Connected\<close>, and the
  device is left as the callback left it if the state is below \<open>Connected\<close>; a successful
  callback is followed by no transition.
\<close>

theorem worker_dispatch_cancel_and_failure:
  "(\<exists>ok mdev'.
      cb mdev (conn_val (conn (state mdev)) < conn_val Connected) = (ok, mdev') \<and>
      worker_dispatch cb mdev =
        (if ok then mdev'
         else if conn_val (conn (state mdev')) < conn_val Connected then mdev'
         else mdev'\<lparr>state := (state mdev')\<lparr>conn := NetworkFailure\<rparr>\<rparr>))"
  by (cases "cb mdev (conn_val (conn (state mdev)) < conn_val Connected)")
     (auto simp: worker_dispatch_def worker_after_cb_def drbd_force_state_def)

section \<open>Properties of the I/O completion dispatch\<close>

lemma endio_error_zero: "endio_error e error = 0 \<longleftrightarrow> error = 0 \<and> bio_uptodate e"
  by (auto simp: endio_error_def)

lemma events_record_event: "events (record_event ev m) = events m @ [ev]"
  by (simp add: record_event_def)

lemma done_ee_write_done:
  "done_ee (endio_write_done e err mdev) = filter (other_ee e) (done_ee mdev) @ [e]"
  by (simp add: endio_write_done_def Let_def list_del_ee_def record_event_def dec_local_def)

lemma active_ee_write_done:
  "active_ee (endio_write_done e err mdev) = filter (other_ee e) (active_ee mdev)"
  by (simp add: endio_write_done_def Let_def list_del_ee_def record_event_def dec_local_def)

lemma sync_ee_write_done:
  "sync_ee (endio_write_done e err mdev) = filter (other_ee e) (sync_ee mdev)"
  by (simp add: endio_write_done_def Let_def list_del_ee_def record_event_def dec_local_def)

lemma write_ordering_write_done:
  "write_ordering (endio_write_done e err mdev) = write_ordering mdev"
  by (simp add: endio_write_done_def Let_def list_del_ee_def record_event_def dec_local_def)

lemma events_write_done:
  "events (endio_write_done e err mdev) =
     events mdev @ (if err \<noteq> 0 then [Ev_chk_io_error] else []) @
       (if is_syncer_block_id (e_block_id e) then [Ev_rs_complete_io (e_sector e)] else []) @
       (if (if is_syncer_block_id (e_block_id e) then filter (other_ee e) (sync_ee mdev) = []
            else filter (other_ee e) (active_ee mdev) = []) then [Ev_wake_ee_wait] else []) @
       (if e_call_al_complete_io e then [Ev_al_complete_io (e_sector e)] else []) @
       [Ev_wake_asender]"
  by (simp add: endio_write_done_def Let_def list_del_ee_def record_event_def dec_local_def)

lemma reissue_fields:
  "work_q (endio_write_reissue e mdev) =
     filter (other_work e) (work_q mdev) @ [Work_ee (e\<lparr>e_cb := W_e_reissue\<rparr>)]"
  "active_ee (endio_write_reissue e mdev) = filter (other_ee e) (active_ee mdev)"
  "sync_ee (endio_write_reissue e mdev) = filter (other_ee e) (sync_ee mdev)"
  "done_ee (endio_write_reissue e mdev) = filter (other_ee e) (done_ee mdev)"
  "events (endio_write_reissue e mdev) = events mdev"
  "state (endio_write_reissue e mdev) = state mdev"
  "write_ordering (endio_write_reissue e mdev) =
     (if wo_val WO_bdev_flush \<le> wo_val (write_ordering mdev) then WO_bdev_flush
      else write_ordering mdev)"
  by (simp_all add: endio_write_reissue_def drbd_queue_work_def list_del_ee_def
      drbd_bump_write_ordering_def)

lemma filter_other_ee: "x \<in> set (filter (other_ee e) xs) \<Longrightarrow> e_id x \<noteq> e_id e"
  by (simp add: other_ee_def)

text \<open>
  C9. Completion of a secondary-role write (\<open>drbd_endio_write_sec\<close>). On success the
  entry leaves the active and sync queues and is appended to the done queue, with no
  I/O error recorded. On failure of an entry with the barrier flag the write-ordering
  mode is demoted (it ends at or below \<open>WO_bdev_flush\<close> and never rises), the entry is
  queued for \<open>w_e_reissue\<close> and is on no entry queue, and neither an I/O error is
  recorded nor the device state changed. On failure without the barrier flag an I/O
  error is recorded and the entry is appended to the done queue all the same.
\<close>

theorem endio_write_sec_outcomes:
  fixes e error mdev
  defines "m' \<equiv> drbd_endio_write_sec e error mdev"
  shows
  "(error = 0 \<and> bio_uptodate e \<longrightarrow>
      done_ee m' = filter (other_ee e) (done_ee mdev) @ [e] \<and>
      (\<forall>x \<in> set (active_ee m') \<union> set (sync_ee m'). e_id x \<noteq> e_id e) \<and>
      write_ordering m' = write_ordering mdev \<and>
      (\<exists>evs. events m' = events mdev @ evs \<and> Ev_chk_io_error \<notin> set evs)) \<and>
   ((error \<noteq> 0 \<or> \<not> bio_uptodate e) \<and> e_is_barrier e \<longrightarrow>
      wo_val (write_ordering m') \<le> wo_val WO_bdev_flush \<and>
      wo_val (write_ordering m') \<le> wo_val (write_ordering mdev) \<and>
      work_q m' = filter (other_work e) (work_q mdev) @ [Work_ee (e\<lparr>e_cb := W_e_reissue\<rparr>)] \<and>
      (\<forall>x \<in> set (active_ee m') \<union> set (sync_ee m') \<union> set (done_ee m'). e_id x \<noteq> e_id e) \<and>
      events m' = events mdev \<and> state m' = state mdev) \<and>
   ((error \<noteq> 0 \<or> \<not> bio_uptodate e) \<and> \<not> e_is_barrier e \<longrightarrow>
      done_ee m' = filter (other_ee e) (done_ee mdev) @ [e] \<and>
      (\<forall>x \<in> set (active_ee m') \<union> set (sync_ee m'). e_id x \<noteq> e_id e) \<and>
      write_ordering m' = write_ordering mdev \<and>
      (\<exists>evs. events m' = events mdev @ Ev_chk_io_error # evs))"
proof (intro conjI impI)
  assume ok: "error = 0 \<and> bio_uptodate e"
  then have z: "endio_error e error = 0" by (simp add: endio_error_zero)
  then have m: "m' = endio_write_done e 0 mdev"
    by (simp add: m'_def drbd_endio_write_sec_def)
  show "done_ee m' = filter (other_ee e) (done_ee mdev) @ [e]"
    by (simp add: m done_ee_write_done)
  show "\<forall>x \<in> set (active_ee m') \<union> set (sync_ee m'). e_id x \<noteq> e_id e"
    by (auto simp: m active_ee_write_done sync_ee_write_done other_ee_def)
  show "write_ordering m' = write_ordering mdev"
    by (simp add: m write_ordering_write_done)
  show "\<exists>evs. events m' = events mdev @ evs \<and> Ev_chk_io_error \<notin> set evs"
    unfolding m events_write_done by (rule exI, rule conjI, rule refl) simp
next
  assume f: "(error \<noteq> 0 \<or> \<not> bio_uptodate e) \<and> e_is_barrier e"
  then have "endio_error e error \<noteq> 0" by (simp add: endio_error_zero)
  with f have m: "m' = endio_write_reissue e mdev"
    by (simp add: m'_def drbd_endio_write_sec_def)
  show "wo_val (write_ordering m') \<le> wo_val WO_bdev_flush"
    by (simp add: m reissue_fields)
  show "wo_val (write_ordering m') \<le> wo_val (write_ordering mdev)"
    by (simp add: m reissue_fields)
  show "work_q m' = filter (other_work e) (work_q mdev) @ [Work_ee (e\<lparr>e_cb := W_e_reissue\<rparr>)]"
    by (simp add: m reissue_fields)
  show "\<forall>x \<in> set (active_ee m') \<union> set (sync_ee m') \<union> set (done_ee m'). e_id x \<noteq> e_id e"
    by (auto simp: m reissue_fields other_ee_def)
  show "events m' = events mdev" by (simp add: m reissue_fields)
  show "state m' = state mdev" by (simp add: m reissue_fields)
next
  assume f: "(error \<noteq> 0 \<or> \<not> bio_uptodate e) \<and> \<not> e_is_barrier e"
  then have nz: "endio_error e error \<noteq> 0" by (simp add: endio_error_zero)
  from f have m: "m' = endio_write_done e (endio_error e error) mdev"
    by (simp add: m'_def drbd_endio_write_sec_def)
  show "done_ee m' = filter (other_ee e) (done_ee mdev) @ [e]"
    by (simp add: m done_ee_write_done)
  show "\<forall>x \<in> set (active_ee m') \<union> set (sync_ee m'). e_id x \<noteq> e_id e"
    by (auto simp: m active_ee_write_done sync_ee_write_done other_ee_def)
  show "write_ordering m' = write_ordering mdev"
    by (simp add: m write_ordering_write_done)
  show "\<exists>evs. events m' = events mdev @ Ev_chk_io_error # evs"
    unfolding m events_write_done using nz by simp
qed

theorem endio_write_sec_outcomes_witness:
  "done_ee (drbd_endio_write_sec ex_e 0 ex_writes) = [ex_e] \<and>
   active_ee (drbd_endio_write_sec ex_e 0 ex_writes) = [ex_barrier] \<and>
   work_q (drbd_endio_write_sec ex_barrier (- 5) ex_writes) =
     [Work_ee (ex_barrier\<lparr>e_cb := W_e_reissue\<rparr>)] \<and>
   write_ordering (drbd_endio_write_sec ex_barrier (- 5) ex_writes) = WO_bdev_flush \<and>
   done_ee (drbd_endio_write_sec ex_barrier (- 5) ex_writes) = [] \<and>
   done_ee (drbd_endio_write_sec ex_e (- 5) ex_writes) = [ex_e] \<and>
   events (drbd_endio_write_sec ex_e (- 5) ex_writes) = [Ev_chk_io_error, Ev_wake_asender]"
proof -
  have a: "(0::int) = 0 \<and> bio_uptodate ex_e" by (simp add: ex_e_def)
  have b: "((- 5::int) \<noteq> 0 \<or> \<not> bio_uptodate ex_barrier) \<and> e_is_barrier ex_barrier"
    by (simp add: ex_barrier_def)
  have c: "((- 5::int) \<noteq> 0 \<or> \<not> bio_uptodate ex_e) \<and> \<not> e_is_barrier ex_e"
    by (simp add: ex_e_def)
  have ids: "other_ee ex_e ex_barrier" "\<not> other_ee ex_e ex_e" "\<not> other_ee ex_barrier ex_barrier"
    by (simp_all add: other_ee_def ex_e_def ex_barrier_def)
  have q: "done_ee ex_writes = []" "work_q ex_writes = []" "events ex_writes = []"
    "active_ee ex_writes = [ex_e, ex_barrier]" "write_ordering ex_writes = WO_bio_barrier"
    by (simp_all add: ex_writes_def mdev0_def)
  have x: "active_ee (drbd_endio_write_sec ex_e 0 ex_writes) = [ex_barrier]"
    using a ids by (simp add: drbd_endio_write_sec_def endio_error_def active_ee_write_done q)
  have y: "write_ordering (drbd_endio_write_sec ex_barrier (- 5) ex_writes) = WO_bdev_flush"
    using b by (simp add: drbd_endio_write_sec_def endio_error_def reissue_fields q)
  have z: "events (drbd_endio_write_sec ex_e (- 5) ex_writes) = [Ev_chk_io_error, Ev_wake_asender]"
    using c ids
    by (simp add: drbd_endio_write_sec_def endio_error_def events_write_done q
        is_syncer_block_id_def ID_SYNCER_def ex_e_def)
  from endio_write_sec_outcomes [where e = ex_e and error = 0 and mdev = ex_writes] a
  have 1: "done_ee (drbd_endio_write_sec ex_e 0 ex_writes) = [ex_e]"
    by (simp add: q)
  from endio_write_sec_outcomes [where e = ex_barrier and error = "- 5" and mdev = ex_writes] b
  have 2: "work_q (drbd_endio_write_sec ex_barrier (- 5) ex_writes) =
             [Work_ee (ex_barrier\<lparr>e_cb := W_e_reissue\<rparr>)]"
    by (simp add: q)
  have 3: "done_ee (drbd_endio_write_sec ex_barrier (- 5) ex_writes) = []"
    using b by (simp add: drbd_endio_write_sec_def endio_error_def reissue_fields q)
  from endio_write_sec_outcomes [where e = ex_e and error = "- 5" and mdev = ex_writes] c
  have 4: "done_ee (drbd_endio_write_sec ex_e (- 5) ex_writes) = [ex_e]"
    by (simp add: q)
  from 1 x 2 y 3 4 z show ?thesis by simp
qed

section \<open>Properties of the checksum path\<close>

lemma bm_clear_range_length: "length (bm_clear_range bm lo hi) = length bm"
  by (simp add: bm_clear_range_def)

lemma bm_clear_range_nth:
  "i < length bm \<Longrightarrow> bm_clear_range bm lo hi ! i = (if lo \<le> i \<and> i \<le> hi then False else bm ! i)"
  by (simp add: bm_clear_range_def)

lemma wrap_int_id: "- (2 ^ 31) \<le> x \<Longrightarrow> x < 2 ^ 31 \<Longrightarrow> wrap_int x = x"
  by (simp add: wrap_int_def)

lemma wrap_int_le: "0 \<le> x \<Longrightarrow> wrap_int x \<le> x"
proof -
  assume "0 \<le> x"
  then have "(x + 2 ^ 31) mod 2 ^ 32 \<le> x + 2 ^ 31"
    by (intro zmod_le_nonneg_dividend) simp
  then show ?thesis by (simp add: wrap_int_def)
qed

lemma wrap_int_0 [simp]: "wrap_int 0 = 0"
  by (simp add: wrap_int_def)

lemma csum_rs_req_eq:
  assumes "\<not> cancel" "bio_uptodate e" "csum_eq env e mdev"
  shows "w_e_end_csum_rs_req env e cancel mdev =
           (send_ok env (e_sector e),
            ee_release e (dec_unacked (record_event (Ev_send_ack RSIsInSync (e_sector e) (e_size e))
              ((drbd_set_in_sync (record_event (Ev_rs_complete_io (e_sector e)) mdev)
                  (e_sector e) (e_size e))
                \<lparr>rs_same_csum := (rs_same_csum mdev + 1) mod 2 ^ 64\<rparr>))))"
proof -
  have "csum_eq env e (record_event (Ev_rs_complete_io (e_sector e)) mdev)"
    using assms(3) by (simp add: csum_eq_def record_event_def)
  moreover have "rs_same_csum (drbd_set_in_sync (record_event (Ev_rs_complete_io (e_sector e)) mdev)
                  (e_sector e) (e_size e)) = rs_same_csum mdev"
    by (simp add: drbd_set_in_sync_def record_event_def)
  ultimately show ?thesis
    using assms(1,2) by (simp add: w_e_end_csum_rs_req_def Let_def)
qed

lemma csum_rs_req_neq:
  assumes "\<not> cancel" "bio_uptodate e" "\<not> csum_eq env e mdev"
  shows "w_e_end_csum_rs_req env e cancel mdev =
           (send_ok env (e_sector e),
            ee_release (e\<lparr>e_block_id := ID_SYNCER\<rparr>)
              (dec_unacked (record_event (Ev_send_block RSDataReply (e_sector e) (e_size e))
                 (inc_rs_pending (record_event (Ev_rs_complete_io (e_sector e)) mdev)))))"
proof -
  have "\<not> csum_eq env e (record_event (Ev_rs_complete_io (e_sector e)) mdev)"
    using assms(3) by (simp add: csum_eq_def record_event_def)
  then show ?thesis
    using assms(1,2) by (simp add: w_e_end_csum_rs_req_def Let_def)
qed

lemma ee_release_fields:
  "bitmap (ee_release e m) = bitmap m"
  "rs_same_csum (ee_release e m) = rs_same_csum m"
  "rs_pending_cnt (ee_release e m) = rs_pending_cnt m"
  "events (ee_release e m) =
     events m @ (if bio_has_active_page e then [] else [Ev_free_ee (e_id e)])"
  by (simp_all add: ee_release_def drbd_free_ee_def record_event_def)

lemma dec_unacked_fields:
  "bitmap (dec_unacked m) = bitmap m"
  "rs_same_csum (dec_unacked m) = rs_same_csum m"
  "rs_pending_cnt (dec_unacked m) = rs_pending_cnt m"
  "events (dec_unacked m) = events m"
  by (simp_all add: dec_unacked_def)

lemma record_event_fields:
  "bitmap (record_event ev m) = bitmap m"
  "rs_same_csum (record_event ev m) = rs_same_csum m"
  "rs_pending_cnt (record_event ev m) = rs_pending_cnt m"
  "events (record_event ev m) = events m @ [ev]"
  by (simp_all add: record_event_def)

lemma set_in_sync_fields:
  "rs_same_csum (drbd_set_in_sync m s z) = rs_same_csum m"
  "rs_pending_cnt (drbd_set_in_sync m s z) = rs_pending_cnt m"
  "events (drbd_set_in_sync m s z) = events m"
  by (simp_all add: drbd_set_in_sync_def)

lemma inc_rs_pending_fields:
  "bitmap (inc_rs_pending m) = bitmap m"
  "rs_same_csum (inc_rs_pending m) = rs_same_csum m"
  "rs_pending_cnt (inc_rs_pending m) = wrap_int (rs_pending_cnt m + 1)"
  "events (inc_rs_pending m) = events m"
  by (simp_all add: inc_rs_pending_def)

lemma set_in_sync_clears:
  assumes "512 \<le> sz" "i < length (bitmap m)"
    "BM_SECT_TO_BIT sector \<le> i" "i \<le> BM_SECT_TO_BIT (sector + sz div 512 - 1)"
  shows "\<not> bitmap (drbd_set_in_sync m sector sz) ! i"
proof -
  from assms(1) have "sz div 512 \<noteq> 0" by simp
  then show ?thesis
    using assms(2-4) by (simp add: drbd_set_in_sync_def bm_clear_range_nth)
qed

text \<open>
  C1. The receiver of a checksum request (\<open>w_e_end_csum_rs_req\<close>), for a request that is
  not cancelled, whose local read succeeded, with the transform configured and the
  digest buffer allocated. When the local digest equals the peer's, the bits of the
  sector range are cleared, \<open>rs_same_csum\<close> grows by one, and the only packet sent is the
  acknowledgment \<open>RSIsInSync\<close>: no data block is sent and no reply is pending. When the
  digests differ, the data block is sent as \<open>RSDataReply\<close>, the pending counter grows by
  one, and the bitmap and \<open>rs_same_csum\<close> stay as they were. The counters are machine
  integers: \<open>rs_same_csum\<close> an \<open>unsigned long\<close>, the pending counter an \<open>atomic_t\<close>; the step
  by one is the plain successor unless the counter stands at its last value.
\<close>

theorem csum_rs_req_match_or_transfer:
  fixes env e cancel mdev tfm
  defines "r \<equiv> w_e_end_csum_rs_req env e cancel mdev"
  defines "same \<equiv> memcmp_eq (digest_of tfm (bio_data e)) (e_digest e) (digestsize tfm)"
  assumes run: "\<not> cancel" "bio_uptodate e" "csums_tfm mdev = Some tfm" "alloc_ok env"
  shows
  "(same \<longrightarrow>
      bitmap (snd r) = bitmap (drbd_set_in_sync mdev (e_sector e) (e_size e)) \<and>
      (\<forall>i < length (bitmap mdev).
          512 \<le> e_size e \<and> BM_SECT_TO_BIT (e_sector e) \<le> i \<and>
          i \<le> BM_SECT_TO_BIT (e_sector e + e_size e div 512 - 1) \<longrightarrow> \<not> bitmap (snd r) ! i) \<and>
      rs_same_csum (snd r) = (rs_same_csum mdev + 1) mod 2 ^ 64 \<and>
      (rs_same_csum mdev < 2 ^ 64 - 1 \<longrightarrow> rs_same_csum (snd r) = rs_same_csum mdev + 1) \<and>
      rs_pending_cnt (snd r) = rs_pending_cnt mdev \<and>
      events (snd r) =
        events mdev @ [Ev_rs_complete_io (e_sector e),
                       Ev_send_ack RSIsInSync (e_sector e) (e_size e)] @
          (if bio_has_active_page e then [] else [Ev_free_ee (e_id e)])) \<and>
   (\<not> same \<longrightarrow>
      bitmap (snd r) = bitmap mdev \<and>
      rs_same_csum (snd r) = rs_same_csum mdev \<and>
      rs_pending_cnt (snd r) = wrap_int (rs_pending_cnt mdev + 1) \<and>
      (- (2 ^ 31) \<le> rs_pending_cnt mdev \<and> rs_pending_cnt mdev < 2 ^ 31 - 1 \<longrightarrow>
         rs_pending_cnt (snd r) = rs_pending_cnt mdev + 1) \<and>
      events (snd r) =
        events mdev @ [Ev_rs_complete_io (e_sector e),
                       Ev_send_block RSDataReply (e_sector e) (e_size e)] @
          (if bio_has_active_page e then [] else [Ev_free_ee (e_id e)]))"
proof (intro conjI impI allI)
  assume s: same
  with run have eq: "csum_eq env e mdev" by (simp add: csum_eq_def same_def)
  note r = csum_rs_req_eq [OF run(1,2) eq, folded r_def]
  have b: "bitmap (drbd_set_in_sync (record_event (Ev_rs_complete_io (e_sector e)) mdev)
             (e_sector e) (e_size e)) = bitmap (drbd_set_in_sync mdev (e_sector e) (e_size e))"
    by (simp add: drbd_set_in_sync_def record_event_def)
  show bm: "bitmap (snd r) = bitmap (drbd_set_in_sync mdev (e_sector e) (e_size e))"
    by (simp add: r ee_release_fields dec_unacked_fields record_event_fields b)
  show sc: "rs_same_csum (snd r) = (rs_same_csum mdev + 1) mod 2 ^ 64"
    by (simp add: r ee_release_fields dec_unacked_fields record_event_fields)
  show "rs_same_csum (snd r) = rs_same_csum mdev + 1" if "rs_same_csum mdev < 2 ^ 64 - 1"
    using that unfolding sc by simp
  show "rs_pending_cnt (snd r) = rs_pending_cnt mdev"
    by (simp add: r ee_release_fields dec_unacked_fields record_event_fields set_in_sync_fields)
  show "events (snd r) =
        events mdev @ [Ev_rs_complete_io (e_sector e),
                       Ev_send_ack RSIsInSync (e_sector e) (e_size e)] @
          (if bio_has_active_page e then [] else [Ev_free_ee (e_id e)])"
    by (simp add: r ee_release_fields dec_unacked_fields record_event_fields set_in_sync_fields)
  fix i
  assume "i < length (bitmap mdev)"
    and "512 \<le> e_size e \<and> BM_SECT_TO_BIT (e_sector e) \<le> i \<and>
          i \<le> BM_SECT_TO_BIT (e_sector e + e_size e div 512 - 1)"
  then show "\<not> bitmap (snd r) ! i"
    unfolding bm by (simp add: set_in_sync_clears)
next
  assume s: "\<not> same"
  with run have neq: "\<not> csum_eq env e mdev" by (simp add: csum_eq_def same_def)
  note r = csum_rs_req_neq [OF run(1,2) neq, folded r_def]
  show "bitmap (snd r) = bitmap mdev"
    by (simp add: r ee_release_fields dec_unacked_fields record_event_fields inc_rs_pending_fields)
  show "rs_same_csum (snd r) = rs_same_csum mdev"
    by (simp add: r ee_release_fields dec_unacked_fields record_event_fields inc_rs_pending_fields)
  show pc: "rs_pending_cnt (snd r) = wrap_int (rs_pending_cnt mdev + 1)"
    by (simp add: r ee_release_fields dec_unacked_fields record_event_fields inc_rs_pending_fields)
  show "rs_pending_cnt (snd r) = rs_pending_cnt mdev + 1"
    if "- (2 ^ 31) \<le> rs_pending_cnt mdev \<and> rs_pending_cnt mdev < 2 ^ 31 - 1"
    using that unfolding pc by (simp add: wrap_int_id)
  show "events (snd r) =
        events mdev @ [Ev_rs_complete_io (e_sector e),
                       Ev_send_block RSDataReply (e_sector e) (e_size e)] @
          (if bio_has_active_page e then [] else [Ev_free_ee (e_id e)])"
    by (simp add: r ee_release_fields dec_unacked_fields record_event_fields inc_rs_pending_fields)
qed

theorem csum_rs_req_match_or_transfer_witness:
  "bitmap (snd (w_e_end_csum_rs_req ex_env ex_e False ex_csum)) = [True, True, False, True] \<and>
   rs_same_csum (snd (w_e_end_csum_rs_req ex_env ex_e False ex_csum)) = 1 \<and>
   rs_same_csum (snd (w_e_end_csum_rs_req ex_env ex_e False
                        (ex_csum\<lparr>rs_same_csum := 2 ^ 64 - 1\<rparr>))) = 0 \<and>
   events (snd (w_e_end_csum_rs_req ex_env ex_e False ex_csum)) =
     [Ev_rs_complete_io 16, Ev_send_ack RSIsInSync 16 4096, Ev_free_ee 7] \<and>
   rs_pending_cnt (snd (w_e_end_csum_rs_req ex_env (ex_e\<lparr>e_digest := [9, 9, 9]\<rparr>) False ex_csum)) = 1 \<and>
   events (snd (w_e_end_csum_rs_req ex_env (ex_e\<lparr>e_digest := [9, 9, 9]\<rparr>) False ex_csum)) =
     [Ev_rs_complete_io 16, Ev_send_block RSDataReply 16 4096, Ev_free_ee 7]"
proof -
  have h: "\<not> False" "bio_uptodate ex_e" "csums_tfm ex_csum = Some ex_hash" "alloc_ok ex_env"
    "bio_uptodate (ex_e\<lparr>e_digest := [9, 9, 9]\<rparr>)"
    by (simp_all add: ex_e_def ex_csum_def ex_env_def)
  have same: "memcmp_eq (digest_of ex_hash (bio_data ex_e)) (e_digest ex_e) (digestsize ex_hash)"
    by (simp add: memcmp_eq_def ex_hash_def ex_e_def)
  have diff: "\<not> memcmp_eq (digest_of ex_hash (bio_data (ex_e\<lparr>e_digest := [9, 9, 9]\<rparr>)))
                  (e_digest (ex_e\<lparr>e_digest := [9, 9, 9]\<rparr>)) (digestsize ex_hash)"
    by (simp add: memcmp_eq_def ex_hash_def ex_e_def)
  have bm: "bitmap (drbd_set_in_sync ex_csum 16 4096) = [True, True, False, True]"
    by (simp add: drbd_set_in_sync_def bm_clear_range_def BM_SECT_TO_BIT_def ex_csum_def
        upt_rec [of 0] upt_rec [of 1] upt_rec [of 2] upt_rec [of 3] upt_rec [of 4])
  have f: "e_sector ex_e = 16" "e_size ex_e = 4096" "e_id ex_e = 7"
    "\<not> bio_has_active_page ex_e" "rs_same_csum ex_csum = 0" "rs_pending_cnt ex_csum = 0"
    "events ex_csum = []"
    by (simp_all add: ex_e_def ex_csum_def mdev0_def)
  from csum_rs_req_match_or_transfer [OF h(1,2,3,4)] same
  have 1: "bitmap (snd (w_e_end_csum_rs_req ex_env ex_e False ex_csum)) = [True, True, False, True]"
    "rs_same_csum (snd (w_e_end_csum_rs_req ex_env ex_e False ex_csum)) = 1"
    "events (snd (w_e_end_csum_rs_req ex_env ex_e False ex_csum)) =
       [Ev_rs_complete_io 16, Ev_send_ack RSIsInSync 16 4096, Ev_free_ee 7]"
    by (simp_all add: f bm)
  have h': "csums_tfm (ex_csum\<lparr>rs_same_csum := 2 ^ 64 - 1\<rparr>) = Some ex_hash"
    by (simp add: ex_csum_def)
  from csum_rs_req_match_or_transfer [OF h(1,2) h' h(4)] same
  have 3: "rs_same_csum (snd (w_e_end_csum_rs_req ex_env ex_e False
                               (ex_csum\<lparr>rs_same_csum := 2 ^ 64 - 1\<rparr>))) = 0"
    by simp
  from csum_rs_req_match_or_transfer [OF h(1,5,3,4)] diff
  have 2: "rs_pending_cnt (snd (w_e_end_csum_rs_req ex_env (ex_e\<lparr>e_digest := [9, 9, 9]\<rparr>) False ex_csum)) = 1"
    "events (snd (w_e_end_csum_rs_req ex_env (ex_e\<lparr>e_digest := [9, 9, 9]\<rparr>) False ex_csum)) =
       [Ev_rs_complete_io 16, Ev_send_block RSDataReply 16 4096, Ev_free_ee 7]"
    by (simp_all add: f)
  from 1 2 3 show ?thesis by simp
qed

section \<open>Properties of the resync completion\<close>

lemma out_fields:
  "rs_total (resync_finished_out k m) = 0"
  "rs_failed (resync_finished_out k m) = 0"
  "rs_paused (resync_finished_out k m) = 0"
  "\<not> write_bm_after_resync (resync_finished_out k m)"
  "state (resync_finished_out k m) = state m"
  "md_uuid (resync_finished_out k m) = md_uuid m"
  "p_uuid (resync_finished_out k m) = p_uuid m"
  by (simp_all add: resync_finished_out_def Let_def record_event_def split: option.split)

lemma out_idle:
  assumes "rs_total m = 0" "rs_failed m = 0" "rs_paused m = 0" "\<not> write_bm_after_resync m"
  shows "resync_finished_out None m = m"
  using assms by (simp add: resync_finished_out_def Let_def)

lemma set_state_fields:
  "state (snd (drbd_set_state m ns)) = ns"
  "md_uuid (snd (drbd_set_state m ns)) = md_uuid m"
  "p_uuid (snd (drbd_set_state m ns)) = p_uuid m"
  by (simp_all add: drbd_set_state_def)

lemma finished_m1_fields:
  "state (finished_m1 env mdev) = state mdev"
  "rs_failed (finished_m1 env mdev) = rs_failed mdev"
  "md_uuid (finished_m1 env mdev) = md_uuid mdev"
  "p_uuid (finished_m1 env mdev) = p_uuid mdev"
  "inc_local_ok (finished_m1 env mdev) = inc_local_ok mdev"
  "resync_finished_ns (finished_m1 env mdev) = resync_finished_ns mdev"
  by (simp_all add: finished_m1_def record_event_def inc_local_ok_def resync_finished_ns_def)

lemma finished_unfold:
  assumes "\<not> (rs_del_all_busy env \<and> alloc_ok env)"
  shows "drbd_resync_finished env mdev =
     (if \<not> inc_local_ok mdev \<or> conn_val (conn (state mdev)) \<le> conn_val Connected
      then resync_finished_out None (finished_m1 env mdev)
      else resync_finished_out (resync_finished_khelper (finished_m1 env mdev))
             (snd (drbd_set_state
                (if rs_failed mdev \<noteq> 0 then finished_m1 env mdev
                 else resync_finished_uuids (conn (state mdev)) (finished_m1 env mdev))
                (resync_finished_ns mdev))))"
proof -
  have m1: "(if rs_del_all_busy env then record_event Ev_kick_lo mdev else mdev)
              \<lparr>rs_paused := rs_paused (if rs_del_all_busy env then record_event Ev_kick_lo mdev
                                       else mdev) div nat (hz env)\<rparr> = finished_m1 env mdev"
    by (simp add: finished_m1_def record_event_def)
  have nr: "(rs_del_all_busy env \<and> alloc_ok env) = False" using assms by simp
  show ?thesis
    unfolding drbd_resync_finished_def Let_def m1 nr
    by (simp add: finished_m1_fields)
qed

lemma finished_state:
  assumes "\<not> (rs_del_all_busy env \<and> alloc_ok env)"
  shows "state (drbd_resync_finished env mdev) =
     (if \<not> inc_local_ok mdev \<or> conn_val (conn (state mdev)) \<le> conn_val Connected
      then state mdev else resync_finished_ns mdev)"
  by (simp add: finished_unfold [OF assms] out_fields set_state_fields finished_m1_fields)

lemma finished_counters:
  assumes "\<not> (rs_del_all_busy env \<and> alloc_ok env)"
  shows "rs_total (drbd_resync_finished env mdev) = 0"
    "rs_failed (drbd_resync_finished env mdev) = 0"
    "rs_paused (drbd_resync_finished env mdev) = 0"
    "\<not> write_bm_after_resync (drbd_resync_finished env mdev)"
  by (simp_all add: finished_unfold [OF assms] out_fields)

lemma ns_conn: "conn (resync_finished_ns mdev) = Connected"
  by (simp add: resync_finished_ns_def Let_def)

text \<open>
  C6. Two invocations of \<open>drbd_resync_finished\<close> in a row, each of which gets past the
  test of the resync LRU (the first does not take the retry path, the second finds the
  LRU clear): the second invocation returns the device exactly as the first left it, so
  the transition and the reset of the counters happen once; and where the first
  invocation had the local disk (\<open>inc_local\<close>), it leaves the connection state at or
  below \<open>Connected\<close>, which is what the guard of the second invocation sees.
\<close>

theorem resync_finished_twice:
  assumes first: "\<not> (rs_del_all_busy env1 \<and> alloc_ok env1)"
      and second: "\<not> rs_del_all_busy env2"
  shows "drbd_resync_finished env2 (drbd_resync_finished env1 mdev) =
           drbd_resync_finished env1 mdev \<and>
         (inc_local_ok mdev \<longrightarrow>
            conn_val (conn (state (drbd_resync_finished env1 mdev))) \<le> conn_val Connected)"
proof -
  define m' where "m' = drbd_resync_finished env1 mdev"
  have z: "rs_total m' = 0" "rs_failed m' = 0" "rs_paused m' = 0" "\<not> write_bm_after_resync m'"
    by (simp_all add: m'_def finished_counters [OF first])
  have g: "inc_local_ok mdev \<longrightarrow> conn_val (conn (state m')) \<le> conn_val Connected"
    by (simp add: m'_def finished_state [OF first] ns_conn)
  have guard: "\<not> inc_local_ok m' \<or> conn_val (conn (state m')) \<le> conn_val Connected"
  proof (cases "inc_local_ok mdev")
    case True
    with g show ?thesis by simp
  next
    case False
    then have "state m' = state mdev" by (simp add: m'_def finished_state [OF first])
    with False show ?thesis by (simp add: inc_local_ok_def)
  qed
  have same: "finished_m1 env2 m' = m'"
    using second by (simp add: finished_m1_def z)
  from second have "\<not> (rs_del_all_busy env2 \<and> alloc_ok env2)" by simp
  from finished_unfold [OF this, of m'] guard
  have "drbd_resync_finished env2 m' = resync_finished_out None m'"
    by (simp add: same)
  then have "drbd_resync_finished env2 m' = m'" by (simp add: out_idle z)
  with g show ?thesis by (simp add: m'_def)
qed

theorem resync_finished_twice_witness:
  "\<not> (rs_del_all_busy ex_env \<and> alloc_ok ex_env) \<and> conn (state ex_sync) = SyncTarget \<and>
   conn (state (drbd_resync_finished ex_env ex_sync)) = Connected \<and>
   rs_total ex_sync = 10 \<and> rs_total (drbd_resync_finished ex_env ex_sync) = 0 \<and>
   drbd_resync_finished ex_env (drbd_resync_finished ex_env ex_sync) =
     drbd_resync_finished ex_env ex_sync"
proof -
  have r: "\<not> (rs_del_all_busy ex_env \<and> alloc_ok ex_env)" "\<not> rs_del_all_busy ex_env"
    by (simp_all add: ex_env_def)
  have i: "inc_local_ok ex_sync"
    by (simp add: inc_local_ok_def ex_sync_def idle_state_def)
  have c: "conn (state ex_sync) = SyncTarget" "rs_total ex_sync = 10"
    by (simp_all add: ex_sync_def)
  have n: "conn (state (drbd_resync_finished ex_env ex_sync)) = Connected"
    using i c by (simp add: finished_state [OF r(1)] ns_conn)
  note t = resync_finished_twice [OF r, of ex_sync]
  from t r(1) c n show ?thesis by (simp add: finished_counters [OF r(1)])
qed

lemma fold_puuid:
  "fold (\<lambda>i p. p(i := u i)) [Current, Bitmap, History_start, History_end] p = u"
proof
  fix x show "fold (\<lambda>i p. p(i := u i)) [Current, Bitmap, History_start, History_end] p x = u x"
    by (cases x) simp_all
qed

lemma uuids_synced:
  "p_uuid mdev = Some p \<Longrightarrow>
   p_uuid (resync_finished_uuids c mdev) = Some (md_uuid (resync_finished_uuids c mdev))"
  unfolding resync_finished_uuids_def Let_def fold_puuid by simp

lemma uuids_target:
  assumes "p_uuid mdev = Some p" "c = SyncTarget \<or> c = PausedSyncT"
  shows "md_uuid (resync_finished_uuids c mdev) Current = p Current"
    "md_uuid (resync_finished_uuids c mdev) Bitmap = 0"
    "[md_uuid (resync_finished_uuids c mdev) History_start,
      md_uuid (resync_finished_uuids c mdev) History_end] =
       take 2 (filter (\<lambda>x. x \<noteq> 0) [md_uuid mdev Current, p Bitmap] @
               [p History_start, p History_end])"
  using assms
  by (auto simp: resync_finished_uuids_def Let_def drbd_uuid_set_def drbd_uuid_set_raw_def
      drbd_uuid_set_bm_def drbd_uuid_move_history_def)

lemma uuids_other:
  assumes "p_uuid mdev = None \<or> \<not> (c = SyncTarget \<or> c = PausedSyncT)"
  shows "md_uuid (resync_finished_uuids c mdev) Current = md_uuid mdev Current"
    "md_uuid (resync_finished_uuids c mdev) Bitmap = 0"
    "[md_uuid (resync_finished_uuids c mdev) History_start,
      md_uuid (resync_finished_uuids c mdev) History_end] =
       take 2 (filter (\<lambda>x. x \<noteq> 0) [md_uuid mdev Bitmap] @
               [md_uuid mdev History_start, md_uuid mdev History_end])"
    "p_uuid mdev = None \<Longrightarrow> p_uuid (resync_finished_uuids c mdev) = None"
  using assms
  by (auto simp: resync_finished_uuids_def Let_def drbd_uuid_set_def drbd_uuid_set_raw_def
      drbd_uuid_set_bm_def drbd_uuid_move_history_def split: option.splits)

lemma finished_uuids:
  assumes "\<not> (rs_del_all_busy env \<and> alloc_ok env)" "inc_local_ok mdev"
    "conn_val Connected < conn_val (conn (state mdev))"
  shows "md_uuid (drbd_resync_finished env mdev) =
           (if rs_failed mdev \<noteq> 0 then md_uuid mdev
            else md_uuid (resync_finished_uuids (conn (state mdev)) (finished_m1 env mdev)))"
    "p_uuid (drbd_resync_finished env mdev) =
           (if rs_failed mdev \<noteq> 0 then p_uuid mdev
            else p_uuid (resync_finished_uuids (conn (state mdev)) (finished_m1 env mdev)))"
  using assms(2,3)
  by (simp_all add: finished_unfold [OF assms(1)] out_fields set_state_fields finished_m1_fields)

text \<open>
  C7. \<open>drbd_resync_finished\<close> for a resync run (not a verify run) with the connection
  state above \<open>Connected\<close>, once it is past the test of the resync LRU and has the local
  disk: the connection state returns to \<open>Connected\<close>. Without failed blocks both disk
  states become \<open>UpToDate\<close> and the identifiers are synchronized: the bitmap identifier is
  cleared; a sync target (\<open>SyncTarget\<close>, \<open>PausedSyncT\<close>) that knows the peer's identifiers
  takes the peer's current identifier as its own and keeps its former current
  identifier and the peer's bitmap identifier, where set, at the head of the history,
  followed by the peer's history; any other side keeps its current identifier and
  moves its bitmap identifier, where set, into the history; and what is known of the
  peer's identifiers, if anything, is set to the local identifiers. With failed blocks
  a sync target marks its own disk \<open>Inconsistent\<close> and the peer's \<open>UpToDate\<close>, any other side
  marks the peer's disk \<open>Inconsistent\<close> and its own \<open>UpToDate\<close>, and the identifiers stay as
  they were.
\<close>

theorem resync_finished_disk_states:
  fixes env mdev
  defines "m' \<equiv> drbd_resync_finished env mdev"
  defines "target \<equiv> conn (state mdev) = SyncTarget \<or> conn (state mdev) = PausedSyncT"
  assumes runs: "\<not> (rs_del_all_busy env \<and> alloc_ok env)" "inc_local_ok mdev"
      and above: "conn_val Connected < conn_val (conn (state mdev))"
      and resync: "conn (state mdev) \<noteq> VerifyS" "conn (state mdev) \<noteq> VerifyT"
  shows "conn (state m') = Connected \<and>
         (rs_failed mdev = 0 \<longrightarrow>
            disk (state m') = UpToDate \<and> pdsk (state m') = UpToDate \<and>
            (p_uuid mdev \<noteq> None \<longrightarrow> p_uuid m' = Some (md_uuid m')) \<and>
            (p_uuid mdev = None \<longrightarrow> p_uuid m' = None) \<and>
            md_uuid m' Bitmap = 0 \<and>
            (\<forall>p. target \<and> p_uuid mdev = Some p \<longrightarrow>
               md_uuid m' Current = p Current \<and>
               [md_uuid m' History_start, md_uuid m' History_end] =
                 take 2 (filter (\<lambda>x. x \<noteq> 0) [md_uuid mdev Current, p Bitmap] @
                         [p History_start, p History_end])) \<and>
            (\<not> target \<or> p_uuid mdev = None \<longrightarrow>
               md_uuid m' Current = md_uuid mdev Current \<and>
               [md_uuid m' History_start, md_uuid m' History_end] =
                 take 2 (filter (\<lambda>x. x \<noteq> 0) [md_uuid mdev Bitmap] @
                         [md_uuid mdev History_start, md_uuid mdev History_end]))) \<and>
         (rs_failed mdev \<noteq> 0 \<and> target \<longrightarrow>
            disk (state m') = Inconsistent \<and> pdsk (state m') = UpToDate) \<and>
         (rs_failed mdev \<noteq> 0 \<and> \<not> target \<longrightarrow>
            disk (state m') = UpToDate \<and> pdsk (state m') = Inconsistent) \<and>
         (rs_failed mdev \<noteq> 0 \<longrightarrow> md_uuid m' = md_uuid mdev \<and> p_uuid m' = p_uuid mdev)"
proof -
  from runs(2) above
  have g: "\<not> (\<not> inc_local_ok mdev \<or> conn_val (conn (state mdev)) \<le> conn_val Connected)"
    by simp
  have st: "state m' = resync_finished_ns mdev"
    using g by (simp add: m'_def finished_state [OF runs(1)])
  note fu = finished_uuids [OF runs above, folded m'_def]
  let ?r = "resync_finished_uuids (conn (state mdev)) (finished_m1 env mdev)"
  have c: "conn (state m') = Connected" by (simp add: st ns_conn)
  have ok: "rs_failed mdev = 0 \<Longrightarrow> disk (state m') = UpToDate \<and> pdsk (state m') = UpToDate"
    by (simp add: st resync_finished_ns_def Let_def)
  have uu: "p_uuid m' = Some (md_uuid m')" if "rs_failed mdev = 0" "p_uuid mdev \<noteq> None"
  proof -
    from that(2) obtain q where q: "p_uuid (finished_m1 env mdev) = Some q"
      by (auto simp: finished_m1_fields)
    from that(1) show ?thesis by (simp add: fu uuids_synced [OF q])
  qed
  have un: "p_uuid m' = None" if "rs_failed mdev = 0" "p_uuid mdev = None"
    using that by (simp add: fu uuids_other(4) finished_m1_fields)
  have bm: "md_uuid m' Bitmap = 0" if "rs_failed mdev = 0"
  proof (cases "p_uuid mdev = None \<or> \<not> target")
    case True
    then have "p_uuid (finished_m1 env mdev) = None \<or>
               \<not> (conn (state mdev) = SyncTarget \<or> conn (state mdev) = PausedSyncT)"
      by (simp add: finished_m1_fields target_def)
    from uuids_other(2) [OF this] that show ?thesis by (simp add: fu)
  next
    case False
    then obtain p where "p_uuid (finished_m1 env mdev) = Some p"
      and "conn (state mdev) = SyncTarget \<or> conn (state mdev) = PausedSyncT"
      by (auto simp: finished_m1_fields target_def)
    from uuids_target(2) [OF this] that show ?thesis by (simp add: fu)
  qed
  have tg: "md_uuid m' Current = p Current \<and>
            [md_uuid m' History_start, md_uuid m' History_end] =
              take 2 (filter (\<lambda>x. x \<noteq> 0) [md_uuid mdev Current, p Bitmap] @
                      [p History_start, p History_end])"
    if "rs_failed mdev = 0" "target \<and> p_uuid mdev = Some p" for p
  proof -
    from that(2) have "p_uuid (finished_m1 env mdev) = Some p"
      and "conn (state mdev) = SyncTarget \<or> conn (state mdev) = PausedSyncT"
      by (simp_all add: finished_m1_fields target_def)
    from uuids_target(1,3) [OF this] that(1) show ?thesis
      by (simp add: fu finished_m1_fields)
  qed
  have ot: "md_uuid m' Current = md_uuid mdev Current \<and>
            [md_uuid m' History_start, md_uuid m' History_end] =
              take 2 (filter (\<lambda>x. x \<noteq> 0) [md_uuid mdev Bitmap] @
                      [md_uuid mdev History_start, md_uuid mdev History_end])"
    if "rs_failed mdev = 0" "\<not> target \<or> p_uuid mdev = None"
  proof -
    from that(2) have "p_uuid (finished_m1 env mdev) = None \<or>
               \<not> (conn (state mdev) = SyncTarget \<or> conn (state mdev) = PausedSyncT)"
      by (auto simp: finished_m1_fields target_def)
    from uuids_other(1,3) [OF this] that(1) show ?thesis
      by (simp add: fu finished_m1_fields)
  qed
  have t: "rs_failed mdev \<noteq> 0 \<Longrightarrow> target \<Longrightarrow>
            disk (state m') = Inconsistent \<and> pdsk (state m') = UpToDate"
    by (auto simp: st resync_finished_ns_def Let_def target_def)
  have s: "rs_failed mdev \<noteq> 0 \<Longrightarrow> \<not> target \<Longrightarrow>
            disk (state m') = UpToDate \<and> pdsk (state m') = Inconsistent"
    by (simp add: st resync_finished_ns_def Let_def target_def)
  have fl: "rs_failed mdev \<noteq> 0 \<Longrightarrow> md_uuid m' = md_uuid mdev \<and> p_uuid m' = p_uuid mdev"
    by (simp add: fu)
  from c ok uu un bm tg ot t s fl show ?thesis by blast
qed

text \<open>
  The target of the example takes \<open>20\<close>, the peer's current identifier, for its own
  \<open>10\<close>, which moves to the head of the history, followed by the peer's bitmap
  identifier \<open>21\<close>.
\<close>

theorem resync_finished_disk_states_witness:
  "disk (state (drbd_resync_finished ex_env ex_sync)) = UpToDate \<and>
   pdsk (state (drbd_resync_finished ex_env ex_sync)) = UpToDate \<and>
   p_uuid (drbd_resync_finished ex_env ex_sync) =
     Some (md_uuid (drbd_resync_finished ex_env ex_sync)) \<and>
   disk (state (drbd_resync_finished ex_env (ex_sync\<lparr>rs_failed := 3\<rparr>))) = Inconsistent \<and>
   pdsk (state (drbd_resync_finished ex_env (ex_sync\<lparr>rs_failed := 3\<rparr>))) = UpToDate \<and>
   disk (state (drbd_resync_finished ex_env ex_source)) = UpToDate \<and>
   pdsk (state (drbd_resync_finished ex_env ex_source)) = Inconsistent \<and>
   md_uuid ex_target Current = 10 \<and>
   md_uuid (drbd_resync_finished ex_env ex_target) Current = 20 \<and>
   md_uuid (drbd_resync_finished ex_env ex_target) Bitmap = 0 \<and>
   [md_uuid (drbd_resync_finished ex_env ex_target) History_start,
    md_uuid (drbd_resync_finished ex_env ex_target) History_end] = [10, 21] \<and>
   p_uuid (drbd_resync_finished ex_env ex_target) =
     Some (md_uuid (drbd_resync_finished ex_env ex_target)) \<and>
   md_uuid (drbd_resync_finished ex_env (ex_target\<lparr>rs_failed := 3\<rparr>)) = md_uuid ex_target"
proof -
  have r: "\<not> (rs_del_all_busy ex_env \<and> alloc_ok ex_env)" by (simp add: ex_env_def)
  have a: "inc_local_ok ex_sync" "conn_val Connected < conn_val (conn (state ex_sync))"
    "conn (state ex_sync) \<noteq> VerifyS" "conn (state ex_sync) \<noteq> VerifyT"
    "rs_failed ex_sync = 0" "p_uuid ex_sync \<noteq> None"
    by (simp_all add: inc_local_ok_def ex_sync_def idle_state_def mdev0_def)
  have b: "inc_local_ok (ex_sync\<lparr>rs_failed := 3\<rparr>)"
    "conn_val Connected < conn_val (conn (state (ex_sync\<lparr>rs_failed := 3\<rparr>)))"
    "conn (state (ex_sync\<lparr>rs_failed := 3\<rparr>)) \<noteq> VerifyS"
    "conn (state (ex_sync\<lparr>rs_failed := 3\<rparr>)) \<noteq> VerifyT"
    "conn (state (ex_sync\<lparr>rs_failed := 3\<rparr>)) = SyncTarget"
    by (simp_all add: inc_local_ok_def ex_sync_def idle_state_def)
  have c: "inc_local_ok ex_source" "conn_val Connected < conn_val (conn (state ex_source))"
    "conn (state ex_source) \<noteq> VerifyS" "conn (state ex_source) \<noteq> VerifyT"
    "conn (state ex_source) = SyncSource" "rs_failed ex_source = 3"
    by (simp_all add: inc_local_ok_def ex_source_def idle_state_def)
  let ?p = "\<lambda>i. case i of Current \<Rightarrow> 20 | Bitmap \<Rightarrow> 21 | History_start \<Rightarrow> 22
                      | History_end \<Rightarrow> (23::nat)"
  have d: "inc_local_ok ex_target" "conn_val Connected < conn_val (conn (state ex_target))"
    "conn (state ex_target) \<noteq> VerifyS" "conn (state ex_target) \<noteq> VerifyT"
    "conn (state ex_target) = SyncTarget" "rs_failed ex_target = 0"
    "p_uuid ex_target = Some ?p" "md_uuid ex_target Current = 10"
    by (simp_all add: inc_local_ok_def ex_target_def ex_sync_def idle_state_def mdev0_def)
  have e: "inc_local_ok (ex_target\<lparr>rs_failed := 3\<rparr>)"
    "conn_val Connected < conn_val (conn (state (ex_target\<lparr>rs_failed := 3\<rparr>)))"
    "conn (state (ex_target\<lparr>rs_failed := 3\<rparr>)) \<noteq> VerifyS"
    "conn (state (ex_target\<lparr>rs_failed := 3\<rparr>)) \<noteq> VerifyT"
    "md_uuid (ex_target\<lparr>rs_failed := 3\<rparr>) = md_uuid ex_target"
    by (simp_all add: inc_local_ok_def ex_target_def ex_sync_def idle_state_def)
  from resync_finished_disk_states [OF r a(1,2,3,4)] a(5,6)
  have 1: "disk (state (drbd_resync_finished ex_env ex_sync)) = UpToDate"
    "pdsk (state (drbd_resync_finished ex_env ex_sync)) = UpToDate"
    "p_uuid (drbd_resync_finished ex_env ex_sync) =
       Some (md_uuid (drbd_resync_finished ex_env ex_sync))"
    by simp_all
  from resync_finished_disk_states [OF r b(1,2,3,4)] b(5)
  have 2: "disk (state (drbd_resync_finished ex_env (ex_sync\<lparr>rs_failed := 3\<rparr>))) = Inconsistent"
    "pdsk (state (drbd_resync_finished ex_env (ex_sync\<lparr>rs_failed := 3\<rparr>))) = UpToDate"
    by simp_all
  from resync_finished_disk_states [OF r c(1,2,3,4)] c(5,6)
  have 3: "disk (state (drbd_resync_finished ex_env ex_source)) = UpToDate"
    "pdsk (state (drbd_resync_finished ex_env ex_source)) = Inconsistent"
    by simp_all
  from resync_finished_disk_states [OF r d(1,2,3,4)] d(5,6,7,8)
  have 4: "md_uuid (drbd_resync_finished ex_env ex_target) Current = 20"
    "md_uuid (drbd_resync_finished ex_env ex_target) Bitmap = 0"
    "[md_uuid (drbd_resync_finished ex_env ex_target) History_start,
      md_uuid (drbd_resync_finished ex_env ex_target) History_end] = [10, 21]"
    "p_uuid (drbd_resync_finished ex_env ex_target) =
       Some (md_uuid (drbd_resync_finished ex_env ex_target))"
    by simp_all
  from resync_finished_disk_states [OF r e(1,2,3,4)] e(5)
  have 5: "md_uuid (drbd_resync_finished ex_env (ex_target\<lparr>rs_failed := 3\<rparr>)) = md_uuid ex_target"
    by simp
  from 1 2 3 4 5 d(8) show ?thesis by simp
qed

section \<open>Properties of the resync and verify scan engine\<close>

text \<open>Unfolding of the loops, and what one request leaves behind.\<close>

lemma requests_simps [simp]:
  "requests [] = 0" "requests (xs @ ys) = requests xs + requests ys"
  "requests (ev # xs) = (if is_request ev then 1 else 0) + requests xs"
  by (simp_all add: requests_def)

lemma ov_loop_unfold:
  "ov_loop env number i sector mdev =
     (if i < number then
        (if rs_begin_busy env sector then (Ov_requeue, mdev\<lparr>ov_position := sector\<rparr>)
         else if \<not> send_ok env sector then (Ov_return False, dec_rs_pending (ov_sent sector mdev))
         else if capacity mdev \<le> (sector + BM_SECT_PER_BIT) mod 2 ^ 64
         then (Ov_return True, (ov_sent sector mdev)\<lparr>resync_work_cb := W_resync_inactive\<rparr>)
         else ov_loop env number (i + 1) ((sector + BM_SECT_PER_BIT) mod 2 ^ 64) (ov_sent sector mdev))
      else (Ov_fallthrough, mdev\<lparr>ov_position := sector\<rparr>))"
  by (subst ov_loop.simps) (simp add: Let_def ov_sent_def)

lemma ov_sent_fields:
  "events (ov_sent sector mdev) =
     events mdev @ [Ev_send_ov_request sector (clamp_size sector (int BM_BLOCK_SIZE) (capacity mdev))]"
  "capacity (ov_sent sector mdev) = capacity mdev"
  "rs_pending_cnt (ov_sent sector mdev) = wrap_int (rs_pending_cnt mdev + 1)"
  by (simp_all add: ov_sent_def record_event_def inc_rs_pending_def)

lemma clamp_within:
  assumes "sector \<le> cap" "cap + 2 ^ 22 < 2 ^ 64" "0 \<le> sz" "sz < 2 ^ 31"
  shows "0 \<le> clamp_size sector sz cap \<and> sector + nat (clamp_size sector sz cap) div 512 \<le> cap"
proof (cases "cap < (sector + nat sz div 512) mod 2 ^ 64")
  case False
  from assms have "nat sz div 512 < 2 ^ 22" by (simp add: div_less_iff_less_mult nat_less_iff)
  with assms have "sector + nat sz div 512 < 2 ^ 64" by simp
  with False have "sector + nat sz div 512 \<le> cap" by simp
  with False assms(3) show ?thesis by (simp add: clamp_size_def)
next
  case True
  from assms have q: "nat sz div 512 < 2 ^ 22" by (simp add: div_less_iff_less_mult nat_less_iff)
  with assms have "sector + nat sz div 512 < 2 ^ 64" by simp
  with True have gt: "cap < sector + nat sz div 512" by simp
  define d where "d = cap - sector"
  from gt assms(1) have dlt: "d < nat sz div 512" by (simp add: d_def)
  with q have d22: "d < 2 ^ 22" by simp
  from assms(1) have "cap + 2 ^ 64 - sector = d + 2 ^ 64" by (simp add: d_def)
  moreover from d22 have "d < (2 ^ 64 :: nat)" by simp
  ultimately have "(cap + 2 ^ 64 - sector) mod 2 ^ 64 = d" by simp
  moreover from d22 have d31: "d * 512 < 2 ^ 31" by simp
  then have "(d * 512) mod 2 ^ 64 = d * 512" by simp
  moreover from d31 have "to_int32 (d * 512) = int (d * 512)"
    by (simp add: to_int32_def)
  ultimately have "clamp_size sector sz cap = int (d * 512)"
    using True by (simp add: clamp_size_def)
  moreover have "sector + d \<le> cap" using assms(1) by (simp add: d_def)
  ultimately show ?thesis by simp
qed

lemma ov_loop_trace:
  "\<exists>evs. events (snd (ov_loop env number i sector mdev)) = events mdev @ evs \<and>
         int (requests evs) \<le> max 0 (number - i) \<and>
         (sector \<le> capacity mdev \<and> capacity mdev + 2 ^ 22 < 2 ^ 64 \<longrightarrow>
            list_all (request_within (capacity mdev)) evs)"
proof (induction "nat (number - i)" arbitrary: i sector mdev rule: less_induct)
  case less
  define ev where
    "ev = Ev_send_ov_request sector (clamp_size sector (int BM_BLOCK_SIZE) (capacity mdev))"
  have evw: "request_within (capacity mdev) ev"
    if "sector \<le> capacity mdev" "capacity mdev + 2 ^ 22 < 2 ^ 64"
    using clamp_within [OF that, of "int BM_BLOCK_SIZE"] by (simp add: ev_def BM_BLOCK_SIZE_def)
  have evr: "requests [ev] = 1" by (simp add: ev_def)
  have u: "ov_loop env number i sector mdev =
     (if i < number then
        (if rs_begin_busy env sector then (Ov_requeue, mdev\<lparr>ov_position := sector\<rparr>)
         else if \<not> send_ok env sector then (Ov_return False, dec_rs_pending (ov_sent sector mdev))
         else if capacity mdev \<le> (sector + BM_SECT_PER_BIT) mod 2 ^ 64
         then (Ov_return True, (ov_sent sector mdev)\<lparr>resync_work_cb := W_resync_inactive\<rparr>)
         else ov_loop env number (i + 1) ((sector + BM_SECT_PER_BIT) mod 2 ^ 64) (ov_sent sector mdev))
      else (Ov_fallthrough, mdev\<lparr>ov_position := sector\<rparr>))"
    by (rule ov_loop_unfold)
  have "events (snd (ov_loop env number i sector mdev)) = events mdev \<or>
        (i < number \<and> events (snd (ov_loop env number i sector mdev)) = events mdev @ [ev]) \<or>
        (i < number \<and> \<not> capacity mdev \<le> (sector + BM_SECT_PER_BIT) mod 2 ^ 64 \<and>
         ov_loop env number i sector mdev =
           ov_loop env number (i + 1) ((sector + BM_SECT_PER_BIT) mod 2 ^ 64) (ov_sent sector mdev))"
    by (cases "i < number"; cases "rs_begin_busy env sector"; cases "send_ok env sector";
        cases "capacity mdev \<le> (sector + BM_SECT_PER_BIT) mod 2 ^ 64")
       (simp_all add: u ov_sent_fields dec_rs_pending_def ev_def)
  then consider (stop) "events (snd (ov_loop env number i sector mdev)) = events mdev"
    | (one) "i < number" "events (snd (ov_loop env number i sector mdev)) = events mdev @ [ev]"
    | (more) "i < number" "\<not> capacity mdev \<le> (sector + BM_SECT_PER_BIT) mod 2 ^ 64"
        "ov_loop env number i sector mdev =
           ov_loop env number (i + 1) ((sector + BM_SECT_PER_BIT) mod 2 ^ 64) (ov_sent sector mdev)"
    by blast
  then show ?case
  proof cases
    case stop
    then have "events (snd (ov_loop env number i sector mdev)) = events mdev @ [] \<and>
         int (requests []) \<le> max 0 (number - i) \<and>
         (sector \<le> capacity mdev \<and> capacity mdev + 2 ^ 22 < 2 ^ 64 \<longrightarrow>
            list_all (request_within (capacity mdev)) [])" by simp
    then show ?thesis by blast
  next
    case one
    then have "events (snd (ov_loop env number i sector mdev)) = events mdev @ [ev] \<and>
         int (requests [ev]) \<le> max 0 (number - i) \<and>
         (sector \<le> capacity mdev \<and> capacity mdev + 2 ^ 22 < 2 ^ 64 \<longrightarrow>
            list_all (request_within (capacity mdev)) [ev])"
      using evw evr by simp
    then show ?thesis by blast
  next
    case more
    let ?s = "(sector + BM_SECT_PER_BIT) mod 2 ^ 64"
    from more(1) have "nat (number - (i + 1)) < nat (number - i)" by simp
    from less [OF this, of ?s "ov_sent sector mdev"] obtain evs where
      e: "events (snd (ov_loop env number (i + 1) ?s (ov_sent sector mdev))) =
            events (ov_sent sector mdev) @ evs"
      and r: "int (requests evs) \<le> max 0 (number - (i + 1))"
      and w: "?s \<le> capacity mdev \<and> capacity mdev + 2 ^ 22 < 2 ^ 64 \<longrightarrow>
                list_all (request_within (capacity mdev)) evs"
      unfolding ov_sent_fields(2) by blast
    from more(2) have s'le: "?s \<le> capacity mdev" by simp
    have 1: "events (snd (ov_loop env number i sector mdev)) = events mdev @ (ev # evs)"
      unfolding more(3) e by (simp add: ov_sent_fields ev_def)
    have 2: "int (requests (ev # evs)) \<le> max 0 (number - i)"
      using r more(1) by (simp add: ev_def)
    have 3: "list_all (request_within (capacity mdev)) (ev # evs)"
      if "sector \<le> capacity mdev \<and> capacity mdev + 2 ^ 22 < 2 ^ 64"
      using that w s'le evw by simp
    from 1 2 3 have "events (snd (ov_loop env number i sector mdev)) = events mdev @ (ev # evs) \<and>
         int (requests (ev # evs)) \<le> max 0 (number - i) \<and>
         (sector \<le> capacity mdev \<and> capacity mdev + 2 ^ 22 < 2 ^ 64 \<longrightarrow>
            list_all (request_within (capacity mdev)) (ev # evs))"
      by blast
    then show ?thesis by blast
  qed
qed

lemma same_disk_refl: "same_disk m m"
  by (simp add: same_disk_def)

lemma same_disk_trans: "same_disk a b \<Longrightarrow> same_disk b c \<Longrightarrow> same_disk a c"
  by (simp add: same_disk_def)

lemma same_disk_wf: "same_disk m m' \<Longrightarrow> scan_wf m' = scan_wf m"
  by (simp add: same_disk_def scan_wf_def)

lemma find_next_some:
  assumes "drbd_bm_find_next mdev fo = Some b"
  shows "fo \<le> b" "b < length (bitmap mdev)" "bitmap mdev ! b"
proof -
  from assms obtain xs where "filter (\<lambda>i. bitmap mdev ! i) [fo..<length (bitmap mdev)] = b # xs"
    by (auto simp: drbd_bm_find_next_def split: list.splits)
  then have "b \<in> set (filter (\<lambda>i. bitmap mdev ! i) [fo..<length (bitmap mdev)])" by simp
  then show "fo \<le> b" "b < length (bitmap mdev)" "bitmap mdev ! b" by simp_all
qed

text \<open>A bit that the search found set is not found clear by the test that follows.\<close>

lemma rs_next_sector_unfold:
  "rs_next_sector env mdev =
     (case drbd_bm_find_next mdev (bm_resync_fo mdev) of
        None \<Rightarrow> (Next_none, mdev\<lparr>bm_resync_fo := drbd_bm_bits mdev,
                                  resync_work_cb := W_resync_inactive\<rparr>)
      | Some bnr \<Rightarrow>
          if rs_begin_busy env (BM_BIT_TO_SECT bnr) then (Next_busy, mdev\<lparr>bm_resync_fo := bnr\<rparr>)
          else (Next_bit bnr, mdev\<lparr>bm_resync_fo := bnr + 1\<rparr>))"
proof (cases "drbd_bm_find_next mdev (bm_resync_fo mdev)")
  case None
  then show ?thesis by (subst rs_next_sector.simps) simp
next
  case (Some bnr)
  from find_next_some [OF Some]
  have "drbd_bm_test_bit (mdev\<lparr>bm_resync_fo := bnr + 1\<rparr>) bnr = 1"
    by (simp add: drbd_bm_test_bit_def)
  with Some show ?thesis by (subst rs_next_sector.simps) simp
qed

lemma rs_next_sector_facts:
  assumes "rs_next_sector env mdev = (r, m)"
  shows "events m = events mdev" "same_disk mdev m"
    "r = Next_bit bnr \<Longrightarrow> bnr < length (bitmap mdev)"
  using assms find_next_some(2) [of mdev "bm_resync_fo mdev"]
  by (auto simp: rs_next_sector_unfold same_disk_def split: option.splits if_splits)

lemma merge_loop_facts:
  "m_i st \<le> m_i (merge_loop mdev sector st) \<and>
   m_size st \<le> m_size (merge_loop mdev sector st) \<and>
   m_size (merge_loop mdev sector st) \<le> max (m_size st) (max_segment_size mdev)"
proof (induction mdev sector st rule: merge_loop.induct)
  case (1 mdev sector st)
  show ?case
  proof (cases "max_segment_size mdev < m_size st + int BM_BLOCK_SIZE \<or>
                sector mod 2 ^ (m_align st + 3) \<noteq> 0 \<or>
                (m_bit st + 1) mod BM_BLOCKS_PER_BM_EXT = 0 \<or>
                drbd_bm_test_bit mdev (m_bit st + 1) \<noteq> 1")
    case True
    then have "merge_loop mdev sector st = st" by (subst merge_loop.simps) auto
    then show ?thesis by simp
  next
    case False
    let ?st = "\<lparr>m_bit = m_bit st + 1, m_size = m_size st + int BM_BLOCK_SIZE,
               m_align = (if int BM_BLOCK_SIZE * 2 ^ m_align st \<le> m_size st + int BM_BLOCK_SIZE
                          then m_align st + 1 else m_align st),
               m_i = m_i st + 1\<rparr>"
    from False have u: "merge_loop mdev sector st = merge_loop mdev sector ?st"
      by (subst merge_loop.simps) simp
    from False "1.IH" have
      "m_i ?st \<le> m_i (merge_loop mdev sector ?st) \<and>
       m_size ?st \<le> m_size (merge_loop mdev sector ?st) \<and>
       m_size (merge_loop mdev sector ?st) \<le> max (m_size ?st) (max_segment_size mdev)"
      by simp
    with False show ?thesis unfolding u by (auto simp: BM_BLOCK_SIZE_def)
  qed
qed

lemma rs_merge_facts:
  "i \<le> m_i (rs_merge m1 bnr i)"
  "0 \<le> m_size (rs_merge m1 bnr i)"
  "max_segment_size m1 < 2 ^ 31 \<Longrightarrow> m_size (rs_merge m1 bnr i) < 2 ^ 31"
  using merge_loop_facts [of "\<lparr>m_bit = bnr, m_size = int BM_BLOCK_SIZE, m_align = 1, m_i = i\<rparr>"
      m1 "BM_BIT_TO_SECT bnr"]
  by (auto simp: rs_merge_def BM_BLOCK_SIZE_def)

lemma resync_loop_unfold:
  "resync_loop env number i mdev =
     (if i < number then
        (case rs_next_sector env mdev of
           (Next_none, m) \<Rightarrow> (Rs_return True, dec_local m)
         | (Next_busy, m) \<Rightarrow> (Rs_requeue, m)
         | (Next_bit bnr, m1) \<Rightarrow>
             (case rs_issue env (rs_m2 m1 bnr i) (BM_BIT_TO_SECT bnr) (rs_size m1 bnr i) of
                (Some ex, m3) \<Rightarrow> (ex, m3)
              | (None, m3) \<Rightarrow> resync_loop env number (m_i (rs_merge m1 bnr i) + 1) m3))
      else (Rs_fallthrough, mdev))"
proof -
  have c: "capacity (rs_m2 m1 bnr i) = capacity m1" for m1 bnr
    by (simp add: rs_m2_def)
  show ?thesis
    by (subst resync_loop.simps)
       (simp add: Let_def rs_m2_def [symmetric] rs_size_def c
          split: prod.splits next_result.splits option.splits)
qed

lemma rs_m2_facts: "events (rs_m2 m1 bnr i) = events m1" "same_disk m1 (rs_m2 m1 bnr i)"
  by (simp_all add: rs_m2_def same_disk_def)

lemma read_for_csum_facts:
  assumes "read_for_csum env mdev sector sz = (rv, m)"
  shows "same_disk mdev m"
    "events m = events mdev \<or> events m = events mdev @ [Ev_submit_read sector sz]"
  using assms
  by (auto simp: read_for_csum_def same_disk_def get_local_def dec_local_def record_event_def
      Let_def split: if_splits)

lemma rs_issue_facts:
  assumes "rs_issue env mdev sector sz = (ex, m)"
  shows "same_disk mdev m"
    "\<exists>evs. events m = events mdev @ evs \<and> requests evs \<le> 1 \<and>
           (0 \<le> sz \<and> sector + nat sz div 512 \<le> capacity mdev \<longrightarrow>
              list_all (request_within (capacity mdev)) evs)"
proof -
  show "same_disk mdev m"
  proof (cases "rs_csum_mode mdev")
    case True
    obtain rv m' where r: "read_for_csum env mdev sector sz = (rv, m')"
      by (cases "read_for_csum env mdev sector sz")
    from read_for_csum_facts(1) [OF r] assms True r show ?thesis
      by (auto simp: rs_issue_def same_disk_def dec_local_def record_event_def split: if_splits)
  next
    case False
    with assms show ?thesis
      by (auto simp: rs_issue_def same_disk_def dec_local_def record_event_def Let_def
          inc_rs_pending_def dec_rs_pending_def split: if_splits)
  qed
  show "\<exists>evs. events m = events mdev @ evs \<and> requests evs \<le> 1 \<and>
           (0 \<le> sz \<and> sector + nat sz div 512 \<le> capacity mdev \<longrightarrow>
              list_all (request_within (capacity mdev)) evs)"
  proof (cases "rs_csum_mode mdev")
    case True
    obtain rv m' where r: "read_for_csum env mdev sector sz = (rv, m')"
      by (cases "read_for_csum env mdev sector sz")
    from assms True r have
      "events m = events m' \<or> events m = events m' @ [Ev_rs_complete_io sector]"
      by (auto simp: rs_issue_def dec_local_def record_event_def split: if_splits)
    with read_for_csum_facts(2) [OF r] consider
        "events m = events mdev @ []"
      | "events m = events mdev @ [Ev_rs_complete_io sector]"
      | "events m = events mdev @ [Ev_submit_read sector sz]"
      | "events m = events mdev @ [Ev_submit_read sector sz, Ev_rs_complete_io sector]"
      by auto
    then show ?thesis
      by cases (rule exI, erule conjI, simp)+
  next
    case False
    with assms have "events m = events mdev @ [Ev_send_drequest RSDataRequest sector sz ID_SYNCER]"
      by (auto simp: rs_issue_def dec_local_def record_event_def Let_def
          inc_rs_pending_def dec_rs_pending_def split: if_splits)
    then show ?thesis
      by (rule exI [where x = "[Ev_send_drequest RSDataRequest sector sz ID_SYNCER]", OF conjI]) simp
  qed
qed

lemma resync_loop_trace:
  "\<exists>evs. events (snd (resync_loop env number i mdev)) = events mdev @ evs \<and>
         int (requests evs) \<le> max 0 (number - i) \<and>
         (scan_wf mdev \<longrightarrow> list_all (request_within (capacity mdev)) evs)"
proof (induction "nat (number - i)" arbitrary: i mdev rule: less_induct)
  case less
  have stop: ?case if "events (snd (resync_loop env number i mdev)) = events mdev"
  proof -
    from that have "events (snd (resync_loop env number i mdev)) = events mdev @ [] \<and>
         int (requests []) \<le> max 0 (number - i) \<and>
         (scan_wf mdev \<longrightarrow> list_all (request_within (capacity mdev)) [])" by simp
    then show ?thesis by blast
  qed
  show ?case
  proof (cases "i < number")
    case False
    then show ?thesis by (intro stop) (simp add: resync_loop_unfold)
  next
    case lt: True
    obtain r m where n: "rs_next_sector env mdev = (r, m)" by (cases "rs_next_sector env mdev")
    note nf = rs_next_sector_facts [OF n]
    show ?thesis
    proof (cases r)
      case Next_none
      with lt n nf(1) show ?thesis
        by (intro stop) (simp add: resync_loop_unfold dec_local_def)
    next
      case Next_busy
      with lt n nf(1) show ?thesis
        by (intro stop) (simp add: resync_loop_unfold)
    next
      case (Next_bit bnr)
      let ?sector = "BM_BIT_TO_SECT bnr"
      let ?m2 = "rs_m2 m bnr i"
      let ?sz = "rs_size m bnr i"
      from nf(3) [OF Next_bit] have bl: "bnr < length (bitmap mdev)" .
      obtain ex m3 where iss: "rs_issue env ?m2 ?sector ?sz = (ex, m3)"
        by (cases "rs_issue env ?m2 ?sector ?sz")
      from rs_issue_facts [OF iss] obtain evs1 where
        sd3: "same_disk ?m2 m3" and e3: "events m3 = events ?m2 @ evs1"
        and r1: "requests evs1 \<le> 1"
        and w1: "0 \<le> ?sz \<and> ?sector + nat ?sz div 512 \<le> capacity ?m2 \<longrightarrow>
                   list_all (request_within (capacity ?m2)) evs1"
        by blast
      have sd: "same_disk mdev m3"
        using nf(2) rs_m2_facts(2) [of m bnr i] sd3 by (blast intro: same_disk_trans)
      then have cap3: "capacity m3 = capacity mdev" by (simp add: same_disk_def)
      have cap2: "capacity ?m2 = capacity mdev" "capacity m = capacity mdev"
        "max_segment_size m = max_segment_size mdev"
        using nf(2) rs_m2_facts(2) [of m bnr i] by (simp_all add: same_disk_def)
      have ev3: "events m3 = events mdev @ evs1"
        using e3 nf(1) by (simp add: rs_m2_facts)
      have win: "list_all (request_within (capacity mdev)) evs1" if wf: "scan_wf mdev"
      proof -
        from wf bl have s: "?sector \<le> capacity mdev"
          by (simp add: scan_wf_def BM_BIT_TO_SECT_def)
        from wf have c: "capacity mdev + 2 ^ 22 < 2 ^ 64" "max_segment_size m < 2 ^ 31"
          by (simp_all add: scan_wf_def cap2)
        from clamp_within [OF s c(1) rs_merge_facts(2) [of m bnr i] rs_merge_facts(3) [OF c(2), of bnr i]]
        have "0 \<le> ?sz \<and> ?sector + nat ?sz div 512 \<le> capacity mdev"
          by (simp add: rs_size_def cap2)
        with w1 show ?thesis by (simp add: cap2)
      qed
      show ?thesis
      proof (cases ex)
        case (Some e)
        with lt n Next_bit iss have "resync_loop env number i mdev = (e, m3)"
          by (simp add: resync_loop_unfold)
        then have "events (snd (resync_loop env number i mdev)) = events mdev @ evs1 \<and>
           int (requests evs1) \<le> max 0 (number - i) \<and>
           (scan_wf mdev \<longrightarrow> list_all (request_within (capacity mdev)) evs1)"
          using ev3 r1 lt win by simp
        then show ?thesis by blast
      next
        case None
        let ?i = "m_i (rs_merge m bnr i) + 1"
        from None lt n Next_bit iss have u: "resync_loop env number i mdev = resync_loop env number ?i m3"
          by (simp add: resync_loop_unfold)
        from rs_merge_facts(1) [of i m bnr] lt have "nat (number - ?i) < nat (number - i)"
          by simp
        from less [OF this, of m3] obtain evs2 where
          e: "events (snd (resync_loop env number ?i m3)) = events m3 @ evs2"
          and r2: "int (requests evs2) \<le> max 0 (number - ?i)"
          and w2: "scan_wf m3 \<longrightarrow> list_all (request_within (capacity m3)) evs2"
          by blast
        have 1: "events (snd (resync_loop env number i mdev)) = events mdev @ (evs1 @ evs2)"
          unfolding u e ev3 by simp
        have 2: "int (requests (evs1 @ evs2)) \<le> max 0 (number - i)"
          using r1 r2 lt rs_merge_facts(1) [of i m bnr] by simp
        have 3: "list_all (request_within (capacity mdev)) (evs1 @ evs2)" if "scan_wf mdev"
          using that win w2 same_disk_wf [OF sd] cap3 by simp
        from 1 2 3 have "events (snd (resync_loop env number i mdev)) = events mdev @ (evs1 @ evs2) \<and>
           int (requests (evs1 @ evs2)) \<le> max 0 (number - i) \<and>
           (scan_wf mdev \<longrightarrow> list_all (request_within (capacity mdev)) (evs1 @ evs2))"
          by blast
        then show ?thesis by blast
      qed
    qed
  qed
qed

lemma ov_tick_trace:
  "\<exists>evs. events (snd (w_make_ov_request env cancel mdev)) = events mdev @ evs \<and>
         int (requests evs) \<le> max 0 (tick_number env mdev - rs_pending_cnt mdev) \<and>
         (ov_position mdev \<le> capacity mdev \<and> capacity mdev + 2 ^ 22 < 2 ^ 64 \<longrightarrow>
            list_all (request_within (capacity mdev)) evs)"
proof -
  let ?b = "tick_number env mdev - rs_pending_cnt mdev"
  let ?P = "\<lambda>evs. events (snd (w_make_ov_request env cancel mdev)) = events mdev @ evs \<and>
         int (requests evs) \<le> max 0 ?b \<and>
         (ov_position mdev \<le> capacity mdev \<and> capacity mdev + 2 ^ 22 < 2 ^ 64 \<longrightarrow>
            list_all (request_within (capacity mdev)) evs)"
  show ?thesis
  proof (cases "cancel \<or> conn_val (conn (state mdev)) < conn_val Connected")
    case True
    then have "?P []" by (auto simp: w_make_ov_request_def)
    then show ?thesis by blast
  next
    case run: False
    show ?thesis
    proof (cases "tick_number env mdev < rs_pending_cnt mdev")
      case True
      with run have "?P [Ev_mod_timer]"
        by (simp add: w_make_ov_request_def ov_requeue_def record_event_def)
      then show ?thesis by blast
    next
      case False
      let ?n = "wrap_int ?b"
      from False have "?n \<le> ?b" by (intro wrap_int_le) simp
      then have nb: "max 0 ?n \<le> max 0 ?b" by simp
      obtain ex m where l: "ov_loop env ?n 0 (ov_position mdev) mdev = (ex, m)"
        by (cases "ov_loop env ?n 0 (ov_position mdev) mdev")
      from ov_loop_trace [of env ?n 0 "ov_position mdev" mdev] l obtain evs where
        e: "events m = events mdev @ evs" and r0: "int (requests evs) \<le> max 0 ?n"
        and w: "ov_position mdev \<le> capacity mdev \<and> capacity mdev + 2 ^ 22 < 2 ^ 64 \<longrightarrow>
                  list_all (request_within (capacity mdev)) evs"
        by auto
      from r0 nb have r: "int (requests evs) \<le> max 0 ?b" by linarith
      from run False l have
        "events (snd (w_make_ov_request env cancel mdev)) = events m \<or>
         events (snd (w_make_ov_request env cancel mdev)) = events m @ [Ev_mod_timer]"
        by (cases ex) (simp_all add: w_make_ov_request_def ov_requeue_def record_event_def)
      then have "?P evs \<or> ?P (evs @ [Ev_mod_timer])"
        using e r w by auto
      then show ?thesis by blast
    qed
  qed
qed

lemma rs_tick_trace:
  "\<exists>evs. events (snd (w_make_resync_request env cancel mdev)) = events mdev @ evs \<and>
         int (requests evs) \<le> max 0 (tick_number env mdev - rs_pending_cnt mdev) \<and>
         (scan_wf mdev \<longrightarrow> list_all (request_within (capacity mdev)) evs)"
proof -
  let ?b = "tick_number env mdev - rs_pending_cnt mdev"
  let ?m0 = "get_local mdev"
  let ?P = "\<lambda>evs. events (snd (w_make_resync_request env cancel mdev)) = events mdev @ evs \<and>
         int (requests evs) \<le> max 0 ?b \<and>
         (scan_wf mdev \<longrightarrow> list_all (request_within (capacity mdev)) evs)"
  have m0: "tick_number env ?m0 = tick_number env mdev" "rs_pending_cnt ?m0 = rs_pending_cnt mdev"
    "events ?m0 = events mdev" "scan_wf ?m0 = scan_wf mdev" "capacity ?m0 = capacity mdev"
    by (simp_all add: get_local_def tick_number_def scan_wf_def)
  show ?thesis
  proof (cases "cancel \<or> conn_val (conn (state mdev)) < conn_val Connected \<or> \<not> inc_local_ok mdev")
    case True
    then have "?P []" by (auto simp: w_make_resync_request_def)
    then show ?thesis by blast
  next
    case run: False
    show ?thesis
    proof (cases "tick_number env mdev < rs_pending_cnt mdev")
      case True
      with run have "?P [Ev_mod_timer]"
        by (simp add: w_make_resync_request_def Let_def m0 rs_requeue_def record_event_def
            dec_local_def)
      then show ?thesis by blast
    next
      case False
      let ?n = "wrap_int ?b"
      from False have "?n \<le> ?b" by (intro wrap_int_le) simp
      then have nb: "max 0 ?n \<le> max 0 ?b" by simp
      obtain ex m where l: "resync_loop env ?n 0 ?m0 = (ex, m)"
        by (cases "resync_loop env ?n 0 ?m0")
      from resync_loop_trace [of env ?n 0 ?m0] l obtain evs where
        e: "events m = events mdev @ evs" and r0: "int (requests evs) \<le> max 0 ?n"
        and w: "scan_wf mdev \<longrightarrow> list_all (request_within (capacity mdev)) evs"
        by (auto simp: m0)
      from r0 nb have r: "int (requests evs) \<le> max 0 ?b" by linarith
      from run False l have
        "events (snd (w_make_resync_request env cancel mdev)) = events m \<or>
         events (snd (w_make_resync_request env cancel mdev)) = events m @ [Ev_mod_timer]"
        by (cases ex)
           (simp_all add: w_make_resync_request_def Let_def m0 rs_requeue_def record_event_def
              dec_local_def)
      then have "?P evs \<or> ?P (evs @ [Ev_mod_timer])"
        using e r w by auto
      then show ?thesis by blast
    qed
  qed
qed

text \<open>The ticks on the example device, one request at a time.\<close>

lemma ex_numbers:
  "tick_number ex_env ex_tick = 3" "tick_number ex_env ex_throttled = 1"
  "tick_number ex_env ex_scan_end = 1" "tick_number ex_env ex_verify = 3"
  by (simp_all add: tick_number_def c_div_def wrap_int_def ex_env_def ex_tick_def ex_throttled_def
      ex_scan_end_def ex_verify_def BM_BLOCK_SIZE_def)

lemma ex_fields:
  "bitmap ex_tick = [True, True, True]" "capacity ex_tick = 20" "max_segment_size ex_tick = 4096"
  "rs_pending_cnt ex_tick = 0" "bm_resync_fo ex_tick = 0" "events ex_tick = []"
  "inc_local_ok ex_tick" "\<not> rs_csum_mode ex_tick"
  "conn (state ex_tick) = SyncTarget"
  by (simp_all add: ex_tick_def mdev0_def inc_local_ok_def rs_csum_mode_def idle_state_def)

lemma find_next_ex:
  "bitmap m = [True, True, True] \<Longrightarrow> drbd_bm_find_next m 0 = Some 0"
  "bitmap m = [True, True, True] \<Longrightarrow> drbd_bm_find_next m 1 = Some 1"
  "bitmap m = [True, True, True] \<Longrightarrow> drbd_bm_find_next m (Suc 0) = Some (Suc 0)"
  "bitmap m = [True, True, True] \<Longrightarrow> drbd_bm_find_next m 2 = Some 2"
  "bitmap m = [True, True, True] \<Longrightarrow> drbd_bm_find_next m 3 = None"
  by (simp_all add: drbd_bm_find_next_def upt_rec [of 0] upt_rec [of 1] upt_rec [of 2]
      upt_rec [of 3] nth_Cons')

lemma merge_ex:
  "max_segment_size m = 4096 \<Longrightarrow> rs_merge m bnr i =
     \<lparr>m_bit = bnr, m_size = 4096, m_align = 1, m_i = i\<rparr>"
  by (simp add: rs_merge_def BM_BLOCK_SIZE_def) (subst merge_loop.simps, simp add: BM_BLOCK_SIZE_def)

lemma clamp_ex:
  "clamp_size 0 4096 20 = 4096" "clamp_size 8 4096 20 = 4096" "clamp_size 16 4096 20 = 2048"
  by (simp_all add: clamp_size_def to_int32_def)

lemma rs_sent_fields:
  "bitmap (rs_sent m bnr) = bitmap m" "capacity (rs_sent m bnr) = capacity m"
  "max_segment_size (rs_sent m bnr) = max_segment_size m"
  "rs_csum_mode (rs_sent m bnr) = rs_csum_mode m"
  "bm_resync_fo (rs_sent m bnr) = bnr + 1"
  "rs_pending_cnt (rs_sent m bnr) = wrap_int (rs_pending_cnt m + 1)"
  "events (rs_sent m bnr) =
     events m @ [Ev_send_drequest RSDataRequest (BM_BIT_TO_SECT bnr)
                   (clamp_size (BM_BIT_TO_SECT bnr) 4096 (capacity m)) ID_SYNCER]"
  by (simp_all add: rs_sent_def record_event_def inc_rs_pending_def rs_csum_mode_def)

lemma rs_direct_step:
  assumes "i < number" and f: "drbd_bm_find_next m (bm_resync_fo m) = Some bnr"
    and "\<not> rs_begin_busy env (BM_BIT_TO_SECT bnr)" and "send_ok env (BM_BIT_TO_SECT bnr)"
    and c: "\<not> rs_csum_mode m" and s: "max_segment_size m = 4096"
  shows "resync_loop env number i m = resync_loop env number (i + 1) (rs_sent m bnr)"
proof -
  let ?m1 = "m\<lparr>bm_resync_fo := Suc bnr\<rparr>"
  have n: "rs_next_sector env m = (Next_bit bnr, ?m1)"
    using f assms(3) by (simp add: rs_next_sector_unfold)
  have s1: "max_segment_size ?m1 = 4096" using s by simp
  have mg: "rs_merge ?m1 bnr i = \<lparr>m_bit = bnr, m_size = 4096, m_align = 1, m_i = i\<rparr>"
    by (rule merge_ex [OF s1])
  have m2: "rs_m2 ?m1 bnr i = ?m1" by (simp add: rs_m2_def mg BM_BLOCK_SIZE_def)
  have sz: "rs_size ?m1 bnr i = clamp_size (BM_BIT_TO_SECT bnr) 4096 (capacity m)"
    by (simp add: rs_size_def mg)
  have c1: "\<not> rs_csum_mode ?m1" using c by (simp add: rs_csum_mode_def)
  have iss: "rs_issue env ?m1 (BM_BIT_TO_SECT bnr)
               (clamp_size (BM_BIT_TO_SECT bnr) 4096 (capacity m)) = (None, rs_sent m bnr)"
    using c1 assms(4) by (simp add: rs_issue_def Let_def rs_sent_def)
  show ?thesis
    by (subst resync_loop_unfold) (simp add: assms(1) n m2 sz iss mg)
qed

lemma ex_rs_events:
  "events (snd (w_make_resync_request ex_env False ex_tick)) =
     [Ev_send_drequest RSDataRequest 0 4096 ID_SYNCER,
      Ev_send_drequest RSDataRequest 8 4096 ID_SYNCER,
      Ev_send_drequest RSDataRequest 16 2048 ID_SYNCER]"
proof -
  have e: "\<not> rs_begin_busy ex_env s" "send_ok ex_env s" for s
    by (simp_all add: ex_env_def)
  define m0 where "m0 = get_local ex_tick"
  define m1 where "m1 = rs_sent m0 0"
  define m2 where "m2 = rs_sent m1 1"
  define m3 where "m3 = rs_sent m2 2"
  have f0: "bitmap m0 = [True, True, True]" "capacity m0 = 20" "max_segment_size m0 = 4096"
    "\<not> rs_csum_mode m0" "bm_resync_fo m0 = 0" "events m0 = []"
    "tick_number ex_env m0 = 3" "rs_pending_cnt m0 = 0"
    using ex_fields ex_numbers(1)
    by (simp_all add: m0_def get_local_def rs_csum_mode_def tick_number_def)
  have f1: "bitmap m1 = [True, True, True]" "capacity m1 = 20" "max_segment_size m1 = 4096"
    "\<not> rs_csum_mode m1" "bm_resync_fo m1 = 1"
    "events m1 = [Ev_send_drequest RSDataRequest 0 4096 ID_SYNCER]"
    by (simp_all add: m1_def rs_sent_fields f0 BM_BIT_TO_SECT_def clamp_ex)
  have f2: "bitmap m2 = [True, True, True]" "capacity m2 = 20" "max_segment_size m2 = 4096"
    "\<not> rs_csum_mode m2" "bm_resync_fo m2 = 2"
    "events m2 = [Ev_send_drequest RSDataRequest 0 4096 ID_SYNCER,
                  Ev_send_drequest RSDataRequest 8 4096 ID_SYNCER]"
    by (simp_all add: m2_def rs_sent_fields f1 BM_BIT_TO_SECT_def clamp_ex)
  have f3: "bitmap m3 = [True, True, True]" "bm_resync_fo m3 = 3"
    "events m3 = [Ev_send_drequest RSDataRequest 0 4096 ID_SYNCER,
                  Ev_send_drequest RSDataRequest 8 4096 ID_SYNCER,
                  Ev_send_drequest RSDataRequest 16 2048 ID_SYNCER]"
    by (simp_all add: m3_def rs_sent_fields f2 BM_BIT_TO_SECT_def clamp_ex)
  have "resync_loop ex_env 3 0 m0 = resync_loop ex_env 3 1 m1"
    using rs_direct_step [of 0 3 m0 0 ex_env] by (simp add: f0 find_next_ex e m1_def)
  also have "\<dots> = resync_loop ex_env 3 2 m2"
    using rs_direct_step [of 1 3 m1 1 ex_env] by (simp add: f1 find_next_ex e m2_def)
  also have "\<dots> = resync_loop ex_env 3 3 m3"
    using rs_direct_step [of 2 3 m2 2 ex_env] by (simp add: f2 find_next_ex e m3_def)
  also have "\<dots> = (Rs_fallthrough, m3)"
    by (subst resync_loop_unfold) simp
  finally have l: "resync_loop ex_env 3 0 m0 = (Rs_fallthrough, m3)" .
  have "w_make_resync_request ex_env False ex_tick =
          (True, dec_local (m3\<lparr>resync_work_cb := W_resync_inactive\<rparr>))"
    using ex_fields(7,9)
    by (simp add: w_make_resync_request_def Let_def m0_def [symmetric] f0 l f3 drbd_bm_bits_def
        wrap_int_def)
  then show ?thesis by (simp add: dec_local_def f3)
qed

lemma ov_step:
  assumes "i < number" "\<not> rs_begin_busy env sector" "send_ok env sector"
    "sector + 8 < capacity m" "capacity m < 2 ^ 64"
  shows "ov_loop env number i sector m = ov_loop env number (i + 1) (sector + 8) (ov_sent sector m)"
  using assms by (subst ov_loop_unfold) (simp add: BM_SECT_PER_BIT_def)

lemma ex_ov_events:
  "events (snd (w_make_ov_request ex_env False ex_verify)) =
     [Ev_send_ov_request 0 4096, Ev_send_ov_request 8 4096, Ev_send_ov_request 16 2048]"
proof -
  have e: "\<not> rs_begin_busy ex_env s" "send_ok ex_env s" for s
    by (simp_all add: ex_env_def)
  define m1 where "m1 = ov_sent 0 ex_verify"
  define m2 where "m2 = ov_sent 8 m1"
  define m3 where "m3 = ov_sent 16 m2"
  have f0: "capacity ex_verify = 20" "events ex_verify = []" "rs_pending_cnt ex_verify = 0"
    "ov_position ex_verify = 0" "conn (state ex_verify) = VerifyS"
    by (simp_all add: ex_verify_def ex_tick_def mdev0_def)
  have f1: "capacity m1 = 20" "events m1 = [Ev_send_ov_request 0 4096]"
    by (simp_all add: m1_def ov_sent_fields f0 clamp_ex BM_BLOCK_SIZE_def)
  have f2: "capacity m2 = 20" "events m2 = [Ev_send_ov_request 0 4096, Ev_send_ov_request 8 4096]"
    by (simp_all add: m2_def ov_sent_fields f1 clamp_ex BM_BLOCK_SIZE_def)
  have f3: "events m3 = [Ev_send_ov_request 0 4096, Ev_send_ov_request 8 4096,
                         Ev_send_ov_request 16 2048]"
    by (simp_all add: m3_def ov_sent_fields f2 clamp_ex BM_BLOCK_SIZE_def)
  have "ov_loop ex_env 3 0 0 ex_verify = ov_loop ex_env 3 1 8 m1"
    using ov_step [of 0 3 ex_env 0 ex_verify] by (simp add: e f0 m1_def)
  also have "\<dots> = ov_loop ex_env 3 2 16 m2"
    using ov_step [of 1 3 ex_env 8 m1] by (simp add: e f1 m2_def)
  also have "\<dots> = (Ov_return True, m3\<lparr>resync_work_cb := W_resync_inactive\<rparr>)"
    by (subst ov_loop_unfold) (simp add: e f2 m3_def BM_SECT_PER_BIT_def)
  finally have l: "ov_loop ex_env 3 0 0 ex_verify =
                   (Ov_return True, m3\<lparr>resync_work_cb := W_resync_inactive\<rparr>)" .
  show ?thesis
    by (simp add: w_make_ov_request_def ex_numbers f0 l f3 wrap_int_def)
qed

lemma ov_idle:
  assumes "conn_val Connected \<le> conn_val (conn (state mdev))"
    and "tick_number env mdev - rs_pending_cnt mdev \<le> 0"
  shows "w_make_ov_request env False mdev = (True, record_event Ev_mod_timer mdev)"
proof (cases "tick_number env mdev < rs_pending_cnt mdev")
  case True
  with assms(1) show ?thesis by (simp add: w_make_ov_request_def ov_requeue_def)
next
  case False
  with assms(2) have z: "tick_number env mdev - rs_pending_cnt mdev = 0" by simp
  have "ov_loop env 0 0 (ov_position mdev) mdev = (Ov_fallthrough, mdev)"
    by (subst ov_loop_unfold) simp
  with assms(1) False show ?thesis by (simp add: w_make_ov_request_def ov_requeue_def z)
qed

lemma local_pair: "dec_local (record_event ev (get_local mdev)) = record_event ev mdev"
  by (simp add: dec_local_def record_event_def get_local_def)

lemma local_pair_cb:
  "dec_local ((get_local mdev)\<lparr>resync_work_cb := c\<rparr>) = mdev\<lparr>resync_work_cb := c\<rparr>"
  by (simp add: dec_local_def get_local_def)

lemma get_local_fields:
  "tick_number env (get_local mdev) = tick_number env mdev"
  "rs_pending_cnt (get_local mdev) = rs_pending_cnt mdev"
  "bm_resync_fo (get_local mdev) = bm_resync_fo mdev"
  "drbd_bm_bits (get_local mdev) = drbd_bm_bits mdev"
  by (simp_all add: get_local_def tick_number_def drbd_bm_bits_def)

lemma rs_idle:
  assumes "conn_val Connected \<le> conn_val (conn (state mdev))" "inc_local_ok mdev"
    and "tick_number env mdev - rs_pending_cnt mdev \<le> 0"
  shows "w_make_resync_request env False mdev =
           (if tick_number env mdev - rs_pending_cnt mdev = 0 \<and>
               drbd_bm_bits mdev \<le> bm_resync_fo mdev
            then (True, mdev\<lparr>resync_work_cb := W_resync_inactive\<rparr>)
            else (True, record_event Ev_mod_timer mdev))"
proof (cases "tick_number env mdev < rs_pending_cnt mdev")
  case True
  with assms(1,2) show ?thesis
    by (simp add: w_make_resync_request_def Let_def get_local_fields rs_requeue_def local_pair)
next
  case False
  with assms(3) have z: "tick_number env mdev - rs_pending_cnt mdev = 0" by simp
  have "resync_loop env 0 0 (get_local mdev) = (Rs_fallthrough, get_local mdev)"
    by (subst resync_loop_unfold) simp
  with assms(1,2) False show ?thesis
    by (simp add: w_make_resync_request_def Let_def get_local_fields rs_requeue_def local_pair
        local_pair_cb z)
qed

text \<open>
  C5 (as amended). The budget of a tick is \<open>SLEEP_TIME * rate / ((BM_BLOCK_SIZE / 1024) * HZ)\<close>,
  as the \<open>int\<close> arithmetic of the source computes it, less the requests pending
  acknowledgement. A resync tick and a verify tick issue at most that many requests
  (none when it is not positive). With a budget that is not positive a verify tick of a
  connected device only re-arms the timer; so does a resync tick that has the local
  disk, unless the budget is exactly zero and the scan offset has reached the end of
  the bitmap: then the resync work goes inactive and the timer is left alone. (\<open>HZ\<close> is the
  tick rate of the kernel: positive, and \<open>4 * HZ\<close> an \<open>int\<close>.)
\<close>

theorem tick_request_budget:
  fixes env mdev
  defines "budget \<equiv> tick_number env mdev - rs_pending_cnt mdev"
  assumes hz: "0 < hz env" "hz env < 2 ^ 29"
      and run: "conn_val Connected \<le> conn_val (conn (state mdev))"
  shows
    "(\<exists>evs. events (snd (w_make_resync_request env cancel mdev)) = events mdev @ evs \<and>
            int (requests evs) \<le> max 0 budget) \<and>
     (\<exists>evs. events (snd (w_make_ov_request env cancel mdev)) = events mdev @ evs \<and>
            int (requests evs) \<le> max 0 budget) \<and>
     (budget \<le> 0 \<longrightarrow> w_make_ov_request env False mdev = (True, record_event Ev_mod_timer mdev)) \<and>
     (inc_local_ok mdev \<and> (budget < 0 \<or> (budget = 0 \<and> bm_resync_fo mdev < drbd_bm_bits mdev)) \<longrightarrow>
        w_make_resync_request env False mdev = (True, record_event Ev_mod_timer mdev)) \<and>
     (inc_local_ok mdev \<and> budget = 0 \<and> drbd_bm_bits mdev \<le> bm_resync_fo mdev \<longrightarrow>
        w_make_resync_request env False mdev =
          (True, mdev\<lparr>resync_work_cb := W_resync_inactive\<rparr>))"
proof (intro conjI impI)
  from rs_tick_trace [of env cancel mdev]
  show "\<exists>evs. events (snd (w_make_resync_request env cancel mdev)) = events mdev @ evs \<and>
            int (requests evs) \<le> max 0 budget"
    unfolding budget_def by blast
  from ov_tick_trace [of env cancel mdev]
  show "\<exists>evs. events (snd (w_make_ov_request env cancel mdev)) = events mdev @ evs \<and>
            int (requests evs) \<le> max 0 budget"
    unfolding budget_def by blast
next
  assume "budget \<le> 0"
  then show "w_make_ov_request env False mdev = (True, record_event Ev_mod_timer mdev)"
    unfolding budget_def by (rule ov_idle [OF run])
next
  assume a: "inc_local_ok mdev \<and>
             (budget < 0 \<or> (budget = 0 \<and> bm_resync_fo mdev < drbd_bm_bits mdev))"
  then have l: "inc_local_ok mdev" and "tick_number env mdev - rs_pending_cnt mdev \<le> 0"
    unfolding budget_def by auto
  from rs_idle [OF run this] a
  show "w_make_resync_request env False mdev = (True, record_event Ev_mod_timer mdev)"
    unfolding budget_def by auto
next
  assume a: "inc_local_ok mdev \<and> budget = 0 \<and> drbd_bm_bits mdev \<le> bm_resync_fo mdev"
  then have l: "inc_local_ok mdev" and "tick_number env mdev - rs_pending_cnt mdev \<le> 0"
    unfolding budget_def by auto
  from rs_idle [OF run this] a
  show "w_make_resync_request env False mdev =
          (True, mdev\<lparr>resync_work_cb := W_resync_inactive\<rparr>)"
    unfolding budget_def by auto
qed

lemma ex_run:
  "conn_val Connected \<le> conn_val (conn (state ex_tick))" "inc_local_ok ex_tick"
  "conn_val Connected \<le> conn_val (conn (state ex_throttled))" "inc_local_ok ex_throttled"
  "conn_val Connected \<le> conn_val (conn (state ex_scan_end))" "inc_local_ok ex_scan_end"
  "rs_pending_cnt ex_tick = 0" "rs_pending_cnt ex_throttled = 2" "rs_pending_cnt ex_scan_end = 1"
  "bm_resync_fo ex_scan_end = 3" "drbd_bm_bits ex_scan_end = 3" "events ex_scan_end = []"
  by (simp_all add: ex_tick_def ex_throttled_def ex_scan_end_def mdev0_def idle_state_def
      inc_local_ok_def drbd_bm_bits_def)

lemma ex_wrapped_run:
  "conn_val Connected \<le> conn_val (conn (state ex_wrapped))" "inc_local_ok ex_wrapped"
  "rs_pending_cnt ex_wrapped = 6250000" "tick_number ex_env ex_wrapped = - 4487418"
  "conn_val Connected \<le> conn_val (conn (state ex_verify_diskless))"
  "\<not> inc_local_ok ex_verify_diskless"
  "tick_number ex_env ex_verify_diskless - rs_pending_cnt ex_verify_diskless = - 1"
  by (simp_all add: ex_wrapped_def ex_verify_diskless_def ex_throttled_def ex_tick_def mdev0_def
      idle_state_def inc_local_ok_def tick_number_def c_div_def wrap_int_def ex_env_def
      BM_BLOCK_SIZE_def)

text \<open>
  The throttled device has a budget of \<open>-1\<close> and both ticks only re-arm the timer; so does
  the resync tick of the device whose rate makes the product wrap (\<open>number\<close> is negative
  there), and the verify tick of a device without a local disk. The device at 120 KiB/s
  has a budget of three, and its resync tick issues three requests.
\<close>

theorem tick_request_budget_witness:
  "0 < hz ex_env \<and> hz ex_env < 2 ^ 29 \<and>
   conn_val Connected \<le> conn_val (conn (state ex_throttled)) \<and> inc_local_ok ex_throttled \<and>
   tick_number ex_env ex_throttled - rs_pending_cnt ex_throttled = - 1 \<and>
   w_make_ov_request ex_env False ex_throttled = (True, record_event Ev_mod_timer ex_throttled) \<and>
   w_make_resync_request ex_env False ex_throttled =
     (True, record_event Ev_mod_timer ex_throttled) \<and>
   conn_val Connected \<le> conn_val (conn (state ex_wrapped)) \<and> inc_local_ok ex_wrapped \<and>
   tick_number ex_env ex_wrapped - rs_pending_cnt ex_wrapped = - 10737418 \<and>
   w_make_resync_request ex_env False ex_wrapped = (True, record_event Ev_mod_timer ex_wrapped) \<and>
   tick_number ex_env ex_tick - rs_pending_cnt ex_tick = 3 \<and>
   requests (events (snd (w_make_resync_request ex_env False ex_tick))) = 3 \<and>
   conn_val Connected \<le> conn_val (conn (state ex_verify_diskless)) \<and>
   \<not> inc_local_ok ex_verify_diskless \<and>
   tick_number ex_env ex_verify_diskless - rs_pending_cnt ex_verify_diskless = - 1 \<and>
   w_make_ov_request ex_env False ex_verify_diskless =
     (True, record_event Ev_mod_timer ex_verify_diskless)"
proof -
  have h: "0 < hz ex_env" "hz ex_env < 2 ^ 29" by (simp_all add: ex_env_def)
  have b: "tick_number ex_env ex_throttled - rs_pending_cnt ex_throttled = - 1"
    "tick_number ex_env ex_tick - rs_pending_cnt ex_tick = 3"
    "tick_number ex_env ex_wrapped - rs_pending_cnt ex_wrapped = - 10737418"
    by (simp_all add: ex_numbers ex_run ex_wrapped_run)
  from tick_request_budget [OF h ex_run(3), of False] b(1) ex_run(4) have 1:
    "w_make_ov_request ex_env False ex_throttled = (True, record_event Ev_mod_timer ex_throttled)"
    "w_make_resync_request ex_env False ex_throttled =
       (True, record_event Ev_mod_timer ex_throttled)"
    by simp_all
  from tick_request_budget [OF h ex_wrapped_run(1), of False] b(3) ex_wrapped_run(2) have 2:
    "w_make_resync_request ex_env False ex_wrapped = (True, record_event Ev_mod_timer ex_wrapped)"
    by simp
  have 3: "requests (events (snd (w_make_resync_request ex_env False ex_tick))) = 3"
    by (simp add: ex_rs_events)
  from tick_request_budget [OF h ex_wrapped_run(5), of False] ex_wrapped_run(7) have 4:
    "w_make_ov_request ex_env False ex_verify_diskless =
       (True, record_event Ev_mod_timer ex_verify_diskless)"
    by simp
  from h b 1 2 3 4 ex_run(3,4) ex_wrapped_run(1,2,5,6,7) show ?thesis by simp
qed

text \<open>
  C5 (as stated) fails at the end of the scan: with one request pending and a rate that
  allows one, the budget is zero, and the resync tick does not reschedule itself; it
  sets the resync work inactive and never touches the timer.
\<close>

theorem tick_scan_end_counterexample:
  "conn_val Connected \<le> conn_val (conn (state ex_scan_end)) \<and> inc_local_ok ex_scan_end \<and>
   tick_number ex_env ex_scan_end - rs_pending_cnt ex_scan_end = 0 \<and>
   w_make_resync_request ex_env False ex_scan_end =
     (True, ex_scan_end\<lparr>resync_work_cb := W_resync_inactive\<rparr>) \<and>
   Ev_mod_timer \<notin> set (events (snd (w_make_resync_request ex_env False ex_scan_end)))"
proof -
  have z: "tick_number ex_env ex_scan_end - rs_pending_cnt ex_scan_end = 0"
    by (simp add: ex_numbers ex_run)
  then have "tick_number ex_env ex_scan_end - rs_pending_cnt ex_scan_end \<le> 0" by simp
  from rs_idle [OF ex_run(5,6) this] z
  have r: "w_make_resync_request ex_env False ex_scan_end =
             (True, ex_scan_end\<lparr>resync_work_cb := W_resync_inactive\<rparr>)"
    by (simp add: ex_run)
  then have "Ev_mod_timer \<notin> set (events (snd (w_make_resync_request ex_env False ex_scan_end)))"
    by (simp add: ex_run)
  with z r ex_run(5,6) show ?thesis by simp
qed

text \<open>
  C10. On a device whose bitmap matches its capacity, every request a resync tick or a
  verify tick issues ends within the capacity: with start sector \<open>s\<close> and size \<open>b\<close> bytes,
  \<open>s + b / 512\<close> is at most the capacity in sectors. (The verify position is a sector of
  the device.)
\<close>

theorem scan_requests_within_capacity:
  assumes "scan_wf mdev" and "ov_position mdev \<le> capacity mdev"
  shows
    "(\<exists>evs. events (snd (w_make_resync_request env cancel mdev)) = events mdev @ evs \<and>
            list_all (request_within (capacity mdev)) evs) \<and>
     (\<exists>evs. events (snd (w_make_ov_request env cancel mdev)) = events mdev @ evs \<and>
            list_all (request_within (capacity mdev)) evs)"
proof
  from rs_tick_trace [of env cancel mdev] assms(1)
  show "\<exists>evs. events (snd (w_make_resync_request env cancel mdev)) = events mdev @ evs \<and>
            list_all (request_within (capacity mdev)) evs"
    by blast
  from assms(1) have "capacity mdev + 2 ^ 22 < 2 ^ 64" by (simp add: scan_wf_def)
  with ov_tick_trace [of env cancel mdev] assms(2)
  show "\<exists>evs. events (snd (w_make_ov_request env cancel mdev)) = events mdev @ evs \<and>
            list_all (request_within (capacity mdev)) evs"
    by blast
qed

text \<open>
  On the device of 20 sectors the last request of either tick, at sector 16, is shortened
  to 2048 bytes.
\<close>

theorem scan_requests_within_capacity_witness:
  "scan_wf ex_tick \<and> ov_position ex_tick \<le> capacity ex_tick \<and> capacity ex_tick = 20 \<and>
   events (snd (w_make_resync_request ex_env False ex_tick)) =
     [Ev_send_drequest RSDataRequest 0 4096 ID_SYNCER,
      Ev_send_drequest RSDataRequest 8 4096 ID_SYNCER,
      Ev_send_drequest RSDataRequest 16 2048 ID_SYNCER] \<and>
   list_all (request_within 20)
     [Ev_send_drequest RSDataRequest 0 4096 ID_SYNCER,
      Ev_send_drequest RSDataRequest 8 4096 ID_SYNCER,
      Ev_send_drequest RSDataRequest 16 2048 ID_SYNCER] \<and>
   scan_wf ex_verify \<and> ov_position ex_verify \<le> capacity ex_verify \<and>
   events (snd (w_make_ov_request ex_env False ex_verify)) =
     [Ev_send_ov_request 0 4096, Ev_send_ov_request 8 4096, Ev_send_ov_request 16 2048] \<and>
   list_all (request_within 20)
     [Ev_send_ov_request 0 4096, Ev_send_ov_request 8 4096, Ev_send_ov_request 16 2048]"
proof -
  have w: "scan_wf ex_tick" "ov_position ex_tick \<le> capacity ex_tick" "capacity ex_tick = 20"
    "events ex_tick = []"
    "scan_wf ex_verify" "ov_position ex_verify \<le> capacity ex_verify" "capacity ex_verify = 20"
    "events ex_verify = []"
    by (simp_all add: scan_wf_def ex_tick_def ex_verify_def mdev0_def)
  from scan_requests_within_capacity [OF w(1,2), of ex_env False]
  have 1: "list_all (request_within 20)
     [Ev_send_drequest RSDataRequest 0 4096 ID_SYNCER,
      Ev_send_drequest RSDataRequest 8 4096 ID_SYNCER,
      Ev_send_drequest RSDataRequest 16 2048 ID_SYNCER]"
    unfolding ex_rs_events w(3,4) by simp
  from scan_requests_within_capacity [OF w(5,6), of ex_env False]
  have 2: "list_all (request_within 20)
     [Ev_send_ov_request 0 4096, Ev_send_ov_request 8 4096, Ev_send_ov_request 16 2048]"
    unfolding ex_ov_events w(7,8) by simp
  from 1 2 w ex_rs_events ex_ov_events show ?thesis by simp
qed

section \<open>Properties of the pending-acknowledgement counter\<close>

text \<open>
  C8. \<open>w_e_send_csum\<close> increments \<open>rs_pending_cnt\<close> before it sends the checksum request and
  returns the failure of the send without the decrement that \<open>w_make_resync_request\<close> and
  \<open>w_make_ov_request\<close> make in the same situation: with the link down the counter of
  the first stays at one, that of the verify tick is back at zero.
\<close>

theorem send_csum_failure_keeps_increment:
  "rs_pending_cnt ex_csum_target = 0 \<and>
   map_option (\<lambda>r. (fst r, rs_pending_cnt (snd r)))
     (w_e_send_csum ex_down ex_csum_e False ex_csum_target) = Some (False, 1) \<and>
   rs_pending_cnt ex_verify = 0 \<and>
   fst (w_make_ov_request ex_down False ex_verify) = False \<and>
   rs_pending_cnt (snd (w_make_ov_request ex_down False ex_verify)) = 0"
proof -
  have a: "rs_pending_cnt ex_csum_target = 0" "rs_pending_cnt ex_verify = 0"
    by (simp_all add: ex_csum_target_def ex_csum_def ex_verify_def ex_tick_def mdev0_def)
  have b: "map_option (\<lambda>r. (fst r, rs_pending_cnt (snd r)))
             (w_e_send_csum ex_down ex_csum_e False ex_csum_target) = Some (False, 1)"
    by (simp add: w_e_send_csum_def Let_def ex_down_def ex_env_def ex_e_def ex_csum_def mdev0_def
        ex_csum_target_def ex_csum_e_def inc_rs_pending_def record_event_def drbd_free_ee_def
        wrap_int_def)
  have n: "tick_number ex_down ex_verify = 3"
    using ex_numbers(4) by (simp add: tick_number_def ex_down_def)
  have l: "ov_loop ex_down 3 0 0 ex_verify = (Ov_return False, dec_rs_pending (ov_sent 0 ex_verify))"
    by (subst ov_loop_unfold) (simp add: ex_down_def ex_env_def)
  have f: "conn (state ex_verify) = VerifyS" "ov_position ex_verify = 0"
    by (simp_all add: ex_verify_def ex_tick_def mdev0_def)
  have c: "w_make_ov_request ex_down False ex_verify =
             (False, dec_rs_pending (ov_sent 0 ex_verify))"
    unfolding w_make_ov_request_def n a f by (simp add: l wrap_int_def)
  from a b c show ?thesis
    by (simp add: dec_rs_pending_def ov_sent_fields wrap_int_def)
qed

end
